theory Spec2Isabelle
  imports Complex_Main "HOL-Library.Signed_Division" "HOL-Library.Multiset"
begin

section \<open>The test-run reporting client (APIHelper)\<close>

text \<open>
  The repository holds two variants of the class \<open>APIHelper\<close>, both with the methods
  \<open>beforeAllTests\<close> (the spec's \<open>start()\<close>), \<open>markTestStart\<close>, \<open>afterEachTest\<close>
  (\<open>recordTest\<close>) and \<open>afterAllTests\<close> (\<open>finish()\<close>). Both are embedded here: the
  names of the first variant carry the suffix \<open>_v1\<close>, those of the second variant the
  suffix \<open>_v2\<close>, and what the two share has no suffix.

  Every method is a function from the outcomes the environment supplies during the call
  (clock readings, the result of the awaited HTTP call, which file operations fail) and
  the state before the call to the method's outcome and the state after it. An exception
  that leaves the method is the outcome \<open>Threw\<close>.
\<close>

subsection \<open>JavaScript values\<close>

datatype jsval =
    JUndefined
  | JNull
  | JBool bool
  | JNum int
  | JStr string
  | JArr "jsval list"
  | JObj "(string \<times> jsval) list"

text \<open>
  \<open>JNum i\<close> is the Number, a double, whose value is the integer \<open>i\<close>. The three values that the code builds from a clock reading
  and that are not integers are carried symbolically, by the integer they are computed
  from: \<open>IsoTime t\<close> is the string \<open>new Date(t).toISOString()\<close>, \<open>Seconds ms\<close> is the
  double \<open>ms / 1000.0\<close> and \<open>SecondsFixed2 ms\<close> is
  \<open>parseFloat((ms / 1000.0).toFixed(2))\<close>.
\<close>

datatype field =
    Json jsval
  | IsoTime int
  | Seconds int
  | SecondsFixed2 int

text \<open>An object literal: its properties in insertion order, each key once.\<close>

type_synonym obj = "(string \<times> field) list"

abbreviation S :: "string \<Rightarrow> field" where
  "S x \<equiv> Json (JStr x)"

abbreviation N :: "int \<Rightarrow> field" where
  "N i \<equiv> Json (JNum i)"

definition field_of :: "obj \<Rightarrow> string \<Rightarrow> field option" where
  "field_of ob k = map_of ob k"

fun truthy :: "jsval \<Rightarrow> bool" where
  "truthy JUndefined = False"
| "truthy JNull = False"
| "truthy (JBool b) = b"
| "truthy (JNum i) = (i \<noteq> 0)"
| "truthy (JStr s) = (s \<noteq> [])"
| "truthy (JArr xs) = True"
| "truthy (JObj kvs) = True"

datatype fs_op = EnsureDir | WriteJson | ReadJson

datatype exn = FsError fs_op | SyntaxError | TypeError | RunIdMissing

text \<open>
  Reading a property: a \<open>TypeError\<close> on \<open>undefined\<close> and \<open>null\<close>, the property's value
  on an object that has it, \<open>undefined\<close> otherwise. The built-in properties of strings
  and arrays are not modelled; the code reads none of them through this function.
\<close>

fun get_prop :: "jsval \<Rightarrow> string \<Rightarrow> exn + jsval" where
  "get_prop JUndefined k = Inl TypeError"
| "get_prop JNull k = Inl TypeError"
| "get_prop (JObj kvs) k = Inr (case map_of kvs k of None \<Rightarrow> JUndefined | Some v \<Rightarrow> v)"
| "get_prop v k = Inr JUndefined"

text \<open>Optional chaining \<open>v?.k\<close>.\<close>

fun opt_prop :: "jsval \<Rightarrow> string \<Rightarrow> jsval" where
  "opt_prop (JObj kvs) k = (case map_of kvs k of None \<Rightarrow> JUndefined | Some v \<Rightarrow> v)"
| "opt_prop v k = JUndefined"

subsection \<open>Numbers to strings\<close>

fun digits :: "nat \<Rightarrow> string" where
  "digits n =
     (if n < 10 then [char_of (48 + n)]
      else digits (n div 10) @ [char_of (48 + n mod 10)])"

declare digits.simps [simp del]

subsubsection \<open>Doubles\<close>

text \<open>
  A JavaScript Number is an IEEE 754 double. The value of a finite double is a rational,
  and the result of an arithmetic operation is the double nearest to the exact result,
  a tie going to the even significand. \<open>nearest_double q\<close> is that double for a rational
  \<open>q\<close> whose magnitude is at least \<open>2^(-1022)\<close> (no subnormal arises from the operations
  below); a result of magnitude \<open>2^1024\<close> or more stands for an infinity.

  \<open>bit_length n\<close> is the number of binary digits of \<open>n\<close>, and \<open>expo q\<close> the exponent \<open>e\<close>
  with \<open>2^e \<le> |q| < 2^(e+1)\<close>.
\<close>

fun bit_length :: "nat \<Rightarrow> nat" where
  "bit_length n = (if n = 0 then 0 else Suc (bit_length (n div 2)))"

declare bit_length.simps [simp del]

definition pow2 :: "int \<Rightarrow> rat" where
  "pow2 e = (if 0 \<le> e then 2 ^ nat e else 1 / 2 ^ nat (- e))"

definition pow10 :: "int \<Rightarrow> rat" where
  "pow10 e = (if 0 \<le> e then 10 ^ nat e else 1 / 10 ^ nat (- e))"

definition expo :: "rat \<Rightarrow> int" where
  "expo q =
     (if 1 \<le> \<bar>q\<bar> then int (bit_length (nat \<lfloor>\<bar>q\<bar>\<rfloor>)) - 1
      else - int (bit_length (nat (\<lceil>1 / \<bar>q\<bar>\<rceil> - 1))))"

definition round_half_even :: "rat \<Rightarrow> int" where
  "round_half_even y =
     (let f = \<lfloor>y\<rfloor>; r = y - of_int f
      in if r < 1 / 2 then f else if 1 / 2 < r then f + 1 else if even f then f else f + 1)"

definition nearest_double :: "rat \<Rightarrow> rat" where
  "nearest_double q =
     (if q = 0 then 0
      else let u = pow2 (expo q - 52) in of_int (round_half_even (q / u)) * u)"

text \<open>
  The same in integer arithmetic, for a fraction \<open>p / q\<close> of integers with \<open>q\<close> positive:
  \<open>round_ratio p q\<close> is \<open>p / q\<close> rounded to an integer, \<open>expo_ratio p q\<close> its exponent
  and \<open>floor_double p q\<close> the integer \<open>Math.floor(p / q)\<close>. They serve to compute, and
  are shown below to agree with the definitions above.
\<close>

definition round_ratio :: "int \<Rightarrow> int \<Rightarrow> int" where
  "round_ratio p q =
     (if 2 * (p mod q) < q then p div q
      else if q < 2 * (p mod q) then p div q + 1
      else if even (p div q) then p div q else p div q + 1)"

definition expo_ratio :: "int \<Rightarrow> int \<Rightarrow> int" where
  "expo_ratio p q =
     (if q \<le> \<bar>p\<bar> then int (bit_length (nat (\<bar>p\<bar> div q))) - 1
      else - int (bit_length (nat (- (- q div \<bar>p\<bar>) - 1))))"

definition floor_double :: "int \<Rightarrow> int \<Rightarrow> int" where
  "floor_double p q =
     (if p = 0 then 0
      else let e = expo_ratio p q
           in if e \<le> 52 then round_ratio (p * 2 ^ nat (52 - e)) q div 2 ^ nat (52 - e)
              else round_ratio p (q * 2 ^ nat (e - 52)) * 2 ^ nat (e - 52))"

text \<open>
  \<open>String(n)\<close> for a double \<open>n\<close> with an integer value (Number::toString of ECMAScript).
  Below \<open>2^53\<close> the digits of the integer are the result. From there on the result has
  the \<open>k\<close> digits of \<open>s\<close>, for the least \<open>k\<close> such that some \<open>s\<close> of \<open>k\<close> digits and some
  \<open>m\<close> have \<open>s * 10^(m-k)\<close> rounding to \<open>n\<close> (of several such \<open>s\<close> the one nearest to \<open>n\<close>,
  then the even one): followed by \<open>m - k\<close> zeros when \<open>m \<le> 21\<close>, and otherwise in
  exponent notation. \<open>m\<close> is the number of digits of \<open>n\<close> or one more, and 17 digits
  always suffice.
\<close>

definition candidates :: "int \<Rightarrow> nat \<Rightarrow> int \<Rightarrow> (int \<times> int) list" where
  "candidates n k m =
     (let p = pow10 (m - int k); f = \<lfloor>of_int n / p\<rfloor>
      in filter (\<lambda>(s, m'). 10 ^ (k - 1) \<le> s \<and> s < 10 ^ k \<and>
                           nearest_double (of_int s * p) = of_int n)
           [(f, m), (f + 1, m)])"

definition nearer :: "int \<Rightarrow> nat \<Rightarrow> int \<times> int \<Rightarrow> int \<times> int \<Rightarrow> int \<times> int" where
  "nearer n k a b =
     (let da = \<bar>of_int (fst a) * pow10 (snd a - int k) - of_int n\<bar>;
          db = \<bar>of_int (fst b) * pow10 (snd b - int k) - of_int n\<bar>
      in if da < db then a else if db < da then b else if even (fst a) then a else b)"

fun shortest :: "int \<Rightarrow> int \<Rightarrow> nat list \<Rightarrow> int \<times> nat \<times> int" where
  "shortest n d [] = (n, nat d, d)"
| "shortest n d (k # ks) =
     (case candidates n k d @ candidates n k (d + 1) of
        [] \<Rightarrow> shortest n d ks
      | c # cs \<Rightarrow> (case foldl (nearer n k) c cs of (s, m) \<Rightarrow> (s, k, m)))"

definition String_large :: "int \<Rightarrow> string" where
  "String_large n =
     (case shortest n (int (length (digits (nat n)))) [1..<18] of
        (s, k, m) \<Rightarrow>
          if m \<le> 21 then digits (nat s) @ replicate (nat (m - int k)) CHR ''0''
          else (case digits (nat s) of
                  [] \<Rightarrow> []
                | c # cs \<Rightarrow>
                    c # (if 1 < k then CHR ''.'' # cs else []) @ ''e+'' @ digits (nat (m - 1))))"

definition String_Number :: "int \<Rightarrow> string" where
  "String_Number n =
     (let a = \<bar>n\<bar>; t = (if a < 2 ^ 53 then digits (nat a) else String_large a)
      in if n < 0 then CHR ''-'' # t else t)"

fun join_comma :: "string list \<Rightarrow> string" where
  "join_comma [] = []"
| "join_comma [s] = s"
| "join_comma (s # t # ss) = s @ '','' @ join_comma (t # ss)"

text \<open>The string conversion an assignment to \<open>process.env\<close> and a template literal apply.\<close>

fun js_String :: "jsval \<Rightarrow> string" where
  "js_String JUndefined = ''undefined''"
| "js_String JNull = ''null''"
| "js_String (JBool b) = (if b then ''true'' else ''false'')"
| "js_String (JNum i) = String_Number i"
| "js_String (JStr s) = s"
| "js_String (JArr xs) =
     join_comma (map (\<lambda>x. if x = JNull \<or> x = JUndefined then [] else js_String x) xs)"
| "js_String (JObj kvs) = ''[object Object]''"

text \<open>\<open>String.prototype.padStart(2, '0')\<close>.\<close>

definition padStart2 :: "string \<Rightarrow> string" where
  "padStart2 s = replicate (2 - length s) CHR ''0'' @ s"

text \<open>
  \<open>formatDuration(ms)\<close> of the second variant, for \<open>ms\<close> a Number with an integer value
  (a difference of two clock readings), given by that integer: the Number is the double
  nearest to it. Every division rounds to a double before \<open>Math.floor\<close> rounds down;
  JavaScript's \<open>%\<close> is exact and takes the sign of the dividend, which is \<open>smod\<close>. When
  \<open>ms\<close> is an infinity, so are \<open>totalSeconds\<close> and the hours, and \<open>Infinity % 3600\<close> is
  \<open>NaN\<close>.
\<close>

definition formatDuration :: "int \<Rightarrow> string" where
  "formatDuration ms =
     (let x = nearest_double (of_int ms) in
      if 2 ^ 1024 \<le> \<bar>x\<bar>
      then (if x < 0 then ''-Infinity'' else ''Infinity'') @ '':NaN:NaN''
      else
        let totalSeconds = \<lfloor>nearest_double (x / 1000)\<rfloor>;
            hours = padStart2 (String_Number \<lfloor>nearest_double (of_int totalSeconds / 3600)\<rfloor>);
            minutes = padStart2
              (String_Number \<lfloor>nearest_double (of_int (totalSeconds smod 3600) / 60)\<rfloor>);
            seconds = padStart2 (String_Number (totalSeconds smod 60))
        in hours @ '':'' @ minutes @ '':'' @ seconds)"

text \<open>Reading a component of the formatted string back: decimal digits and their value.\<close>

definition is_digit :: "char \<Rightarrow> bool" where
  "is_digit c = (48 \<le> (of_char c :: nat) \<and> (of_char c :: nat) \<le> 57)"

definition dec_value :: "string \<Rightarrow> nat" where
  "dec_value s = foldl (\<lambda>acc c. 10 * acc + (of_char c - 48)) 0 s"

subsection \<open>State and environment\<close>

record config =
  apiBaseURL :: string
  orgId :: string
  createdBy :: string
  jobName :: string
  buildNumber :: string
  buildNumberNumeric :: int
  buildUrl :: string
  gitBranch :: string
  gitCommit :: string
  triggeredBy :: string
  environment :: string
  platformName :: string

text \<open>
  \<open>buildNumberNumeric\<close> stands for \<open>Number(config.jenkins.buildNumber) || 0\<close> and
  \<open>platformName\<close> for \<open>process.platform\<close>.
\<close>

datatype file_content = Corrupt | Json_array "obj list"

text \<open>
  The file \<open>test-results/.test-cases.json\<close> is absent, or holds a JSON array of
  test-case objects, or holds something \<open>readJsonSync\<close> cannot parse.
\<close>

datatype request = Post string obj | Patch string obj

datatype log_line = Info string | Error string

record state =
  isJenkins :: bool
  cfg :: config
  pipelineRunId :: jsval
  startTime :: "int option"
  testStartTime :: "int option"
  env_PIPELINE_RUN_ID :: "string option"
  testCasesFile :: "file_content option"
  requests :: "request list"
  log :: "log_line list"

text \<open>
  \<open>requests\<close> lists the HTTP requests issued so far and \<open>log\<close> the lines given to the
  logger, by level and by the fixed text of the message (what the code interpolates into
  a message is left out).

  The awaited call of axios either rejects (a transport error or timeout, with no
  \<open>error.response\<close>; or, under axios's default \<open>validateStatus\<close>, a status outside
  200..299, with one) or resolves to a response with a status and a body.
\<close>

datatype axios_result = Rejected "int option" | Resolved int jsval

record env =
  clock :: "nat \<Rightarrow> int"
  net :: axios_result
  fails :: "fs_op \<Rightarrow> bool"
  failed_write :: "file_content option \<Rightarrow> file_content option"

text \<open>
  \<open>clock e k\<close> is the reading of the \<open>k\<close>-th place at which the method reads the clock.
  \<open>failed_write e\<close> takes the content of the file before a write that fails to what the
  write leaves behind: the same content when nothing was written, \<open>Corrupt\<close> when the
  file was truncated or written in part.
\<close>

datatype outcome = Threw exn | Returned jsval

definition logger :: "log_line list \<Rightarrow> state \<Rightarrow> state" where
  "logger ls s = s\<lparr>log := log s @ ls\<rparr>"

definition separator :: log_line where
  "separator = Info ''==========''"

definition subSeparator :: log_line where
  "subSeparator = Info ''----------''"

definition send :: "request \<Rightarrow> state \<Rightarrow> state" where
  "send r s = s\<lparr>requests := requests s @ [r]\<rparr>"

subsection \<open>File operations of fs-extra\<close>

text \<open>
  \<open>writeJsonSync\<close> opens the file for writing, which truncates it, and writes the text;
  an error at either step leaves what the environment says, and the exception carries on
  from the state with that file.
\<close>

definition ensureDirSync :: "env \<Rightarrow> state \<Rightarrow> exn + state" where
  "ensureDirSync e s = (if fails e EnsureDir then Inl (FsError EnsureDir) else Inr s)"

definition writeJsonSync :: "env \<Rightarrow> obj list \<Rightarrow> state \<Rightarrow> (exn \<times> state) + state" where
  "writeJsonSync e v s =
     (if fails e WriteJson
      then Inl (FsError WriteJson, s\<lparr>testCasesFile := failed_write e (testCasesFile s)\<rparr>)
      else Inr (s\<lparr>testCasesFile := Some (Json_array v)\<rparr>))"

definition existsSync :: "state \<Rightarrow> bool" where
  "existsSync s = (testCasesFile s \<noteq> None)"

definition readJsonSync :: "env \<Rightarrow> state \<Rightarrow> exn + obj list" where
  "readJsonSync e s =
     (if fails e ReadJson then Inl (FsError ReadJson)
      else case testCasesFile s of
             None \<Rightarrow> Inl (FsError ReadJson)
           | Some Corrupt \<Rightarrow> Inl SyntaxError
           | Some (Json_array v) \<Rightarrow> Inr v)"

subsection \<open>What the two variants share\<close>

definition getPipelineRunId :: "state \<Rightarrow> jsval \<times> state" where
  "getPipelineRunId s =
     (if \<not> truthy (pipelineRunId s)
      then let v = (case env_PIPELINE_RUN_ID s of
                      None \<Rightarrow> JNull
                    | Some x \<Rightarrow> if x = [] then JNull else JStr x)
           in (v, s\<lparr>pipelineRunId := v\<rparr>)
      else (pipelineRunId s, s))"

definition markTestStart :: "int \<Rightarrow> state \<Rightarrow> state" where
  "markTestStart now s = s\<lparr>testStartTime := Some now\<rparr>"

text \<open>\<open>tests.filter(t => t.status === st).length\<close>\<close>

definition count_status :: "string \<Rightarrow> obj list \<Rightarrow> nat" where
  "count_status st tests = length (filter (\<lambda>t. field_of t ''status'' = Some (S st)) tests)"

definition pipeline_runs_url :: "state \<Rightarrow> string" where
  "pipeline_runs_url s = apiBaseURL (cfg s) @ ''/api/pipeline-runs/''"

definition test_cases_url :: "state \<Rightarrow> string" where
  "test_cases_url s = apiBaseURL (cfg s) @ ''/api/test-cases/''"

subsection \<open>The first variant\<close>

definition clearTestCasesFile_v1 :: "env \<Rightarrow> state \<Rightarrow> state" where
  "clearTestCasesFile_v1 e s =
     (case ensureDirSync e s of
        Inl x \<Rightarrow> logger [Error ''Could not clear test cases file''] s
      | Inr s1 \<Rightarrow>
          (case writeJsonSync e [] s1 of
             Inl (x, s2) \<Rightarrow> logger [Error ''Could not clear test cases file''] s2
           | Inr s2 \<Rightarrow> logger [Info ''Test cases file cleared''] s2))"

text \<open>The timestamp of the saved record is the fourth clock reading of \<open>afterEachTest\<close>.\<close>

definition saveTestCaseToFile_v1 ::
    "env \<Rightarrow> jsval \<Rightarrow> string \<Rightarrow> string \<Rightarrow> field \<Rightarrow> state \<Rightarrow> state" where
  "saveTestCaseToFile_v1 e testId name status duration s =
     (case (if existsSync s then readJsonSync e s else Inr []) of
        Inl x \<Rightarrow> logger [Error ''Could not save test case''] s
      | Inr testCases \<Rightarrow>
          (case writeJsonSync e
                  (testCases @
                   [[(''test_id'', Json testId),
                     (''name'', S name),
                     (''status'', S status),
                     (''duration'', duration),
                     (''timestamp'', IsoTime (clock e 3))]]) s of
             Inl (x, s1) \<Rightarrow> logger [Error ''Could not save test case''] s1
           | Inr s1 \<Rightarrow> logger [Info ''Test case saved''] s1))"

definition readTestCasesFromFile_v1 :: "env \<Rightarrow> state \<Rightarrow> obj list \<times> state" where
  "readTestCasesFromFile_v1 e s =
     (if \<not> existsSync s then ([], logger [Info ''Test cases file not found''] s)
      else case readJsonSync e s of
             Inl x \<Rightarrow> ([], logger [Error ''Could not read test cases file''] s)
           | Inr testCases \<Rightarrow> (testCases, logger [Info ''Read test cases from file''] s))"

text \<open>
  What a \<open>catch\<close> block of the first variant logs: the error, and the status and body
  of \<open>error.response\<close> when the error has one.
\<close>

definition catch_log_v1 :: "string \<Rightarrow> string \<Rightarrow> int option \<Rightarrow> log_line list" where
  "catch_log_v1 api status_label r =
     Error (api @ '' ERROR'') #
     (case r of None \<Rightarrow> [] | Some st \<Rightarrow> [Error status_label, Error ''Response''])"

definition beforeAllTests_v1 :: "env \<Rightarrow> state \<Rightarrow> outcome \<times> state" where
  "beforeAllTests_v1 e s =
     (if \<not> isJenkins s
      then (Returned JNull, logger [Info ''Local run - Skipping API calls''] s)
      else
        let s1 = s\<lparr>startTime := Some (clock e 0)\<rparr>;
            s2 = clearTestCasesFile_v1 e s1;
            s3 = logger [separator, Info ''API-1: Initializing Pipeline Run'', separator] s2;
            payload =
              [(''job_name'', S (jobName (cfg s))),
               (''build_number'',
                  S (if buildNumber (cfg s) = [] then ''local'' else buildNumber (cfg s))),
               (''branch'', S (gitBranch (cfg s))),
               (''commit_hash'', S (gitCommit (cfg s))),
               (''triggered_by'', S (triggeredBy (cfg s))),
               (''start_time'', IsoTime (clock e 1)),
               (''status'', S ''running''),
               (''environment'', S (environment (cfg s))),
               (''browser'', S ''chrome''),
               (''browser_version'', S ''latest''),
               (''platform'', S (platformName (cfg s))),
               (''framework'', S ''puppeteer''),
               (''organization'', S (orgId (cfg s))),
               (''created_by'', S (createdBy (cfg s)))];
            s4 = logger [Info ''API Endpoint'', Info ''Payload''] s3;
            s5 = send (Post (pipeline_runs_url s) payload) s4
        in case net e of
             Rejected r \<Rightarrow> (Returned JNull, logger (catch_log_v1 ''API-1'' ''Status Code'' r) s5)
           | Resolved st data \<Rightarrow>
               if 200 \<le> st \<and> st < 300
               then (case get_prop data ''run_id'' of
                       Inl x \<Rightarrow> (Returned JNull, logger (catch_log_v1 ''API-1'' ''Status Code'' None) s5)
                     | Inr rid \<Rightarrow>
                         (Returned data,
                          logger
                            [Info [], Info ''API-1 SUCCESS: Pipeline Run Initialized'',
                             subSeparator, Info ''Pipeline Run ID'', Info ''Build Number'',
                             Info ''Branch'', Info ''Browser'', Info ''Triggered By'',
                             separator, Info []]
                            (s5\<lparr>pipelineRunId := rid,
                                env_PIPELINE_RUN_ID := Some (js_String rid)\<rparr>)))
               else (Returned JNull,
                     logger [Error ''API-1 ERROR: Unexpected Response'',
                             Error ''Status Code'', Error ''Response''] s5))"

text \<open>
  \<open>errorMessage\<close> is a string or \<open>null\<close> (\<open>None\<close>); \<open>substring(0, 500)\<close> keeps the
  first 500 characters. \<open>this.testStartTime\<close> holds a \<open>Date\<close> object, which is truthy
  whatever instant it holds.
\<close>

definition afterEachTest_v1 ::
    "env \<Rightarrow> string \<Rightarrow> string \<Rightarrow> string option \<Rightarrow> state \<Rightarrow> outcome \<times> state" where
  "afterEachTest_v1 e testTitle testStatus errorMessage s =
     (if \<not> isJenkins s then (Returned JNull, s)
      else
        let (runId, s1) = getPipelineRunId s in
        if \<not> truthy runId
        then (Returned JNull, logger [Error ''API-3 Skipped: No Pipeline Run ID available''] s1)
        else
          let endTime = clock e 0;
              durationMs = (case testStartTime s1 of Some t \<Rightarrow> endTime - t | None \<Rightarrow> 0);
              s2 = logger [Info [], subSeparator, Info ''API-3: Creating Test Case'',
                           Info ''Duration | Status''] s1;
              payload =
                [(''name'', S testTitle),
                 (''status'', S testStatus),
                 (''run'', Json runId),
                 (''duration'', SecondsFixed2 durationMs),
                 (''created_at'', IsoTime (clock e 1)),
                 (''start_time'',
                    (case testStartTime s1 of Some t \<Rightarrow> IsoTime t | None \<Rightarrow> IsoTime (clock e 2)))]
                @ (case errorMessage of
                     None \<Rightarrow> []
                   | Some m \<Rightarrow>
                       if m \<noteq> [] \<and> testStatus = ''failed''
                       then [(''error_message'', S (take 500 m))] else []);
              s3 = send (Post (test_cases_url s) payload) s2
          in case net e of
               Rejected r \<Rightarrow> (Returned JNull, logger (catch_log_v1 ''API-3'' ''Status'' r) s3)
             | Resolved st data \<Rightarrow>
                 if 200 \<le> st \<and> st < 300
                 then (case get_prop data ''test_id'' of
                         Inl x \<Rightarrow> (Returned JNull, logger (catch_log_v1 ''API-3'' ''Status'' None) s3)
                       | Inr tid \<Rightarrow>
                           let testCaseId = (if truthy tid then tid else JStr ''N/A'');
                               s4 = logger [Info ''API-3 SUCCESS: Test Case Created'',
                                            Info ''Test Case ID''] s3
                           in (Returned data,
                               saveTestCaseToFile_v1 e testCaseId testTitle testStatus
                                 (Seconds durationMs) s4))
                 else (Returned JNull, logger [Error ''API-3 ERROR'', Error ''Response''] s3))"

definition afterAllTests_v1 :: "env \<Rightarrow> state \<Rightarrow> outcome \<times> state" where
  "afterAllTests_v1 e s =
     (if \<not> isJenkins s
      then (Returned JNull, logger [Info ''Local run - Skipping API calls''] s)
      else
        let (runId, s1) = getPipelineRunId s in
        if \<not> truthy runId
        then (Returned JNull, logger [Error ''API-4 Skipped: No Pipeline Run ID available''] s1)
        else
          let s2 = logger [Info [], separator,
                           Info ''API-4: Updating Pipeline Run with Final Results'',
                           separator] s1;
              (testCases, s3) = readTestCasesFromFile_v1 e s2;
              finalTotal = (if length testCases > 0 then length testCases else 0);
              finalPassed = (if length testCases > 0 then count_status ''passed'' testCases else 0);
              finalFailed = (if length testCases > 0 then count_status ''failed'' testCases else 0);
              finalSkipped =
                (if length testCases > 0 then count_status ''skipped'' testCases else 0);
              finalStatus = (if finalFailed = 0 then ''passed'' else ''failed'');
              endTime = clock e 0;
              durationSeconds =
                (case startTime s3 of Some t \<Rightarrow> (endTime - t) div 1000 | None \<Rightarrow> 0);
              payload =
                [(''status'', S finalStatus),
                 (''end_time'', IsoTime (clock e 1)),
                 (''duration'', N durationSeconds),
                 (''total_tests'', N (int finalTotal)),
                 (''passed'', N (int finalPassed)),
                 (''failed'', N (int finalFailed)),
                 (''aborted'', N (int finalSkipped))];
              s4 = logger [Info ''API Endpoint'', Info ''Payload''] s3;
              s5 = send (Patch (pipeline_runs_url s @ js_String runId @ ''/'') payload) s4
          in case net e of
               Rejected r \<Rightarrow> (Returned JNull, logger (catch_log_v1 ''API-4'' ''Status'' r) s5)
             | Resolved st data \<Rightarrow>
                 if 200 \<le> st \<and> st < 300
                 then (Returned data,
                       logger [Info [], Info ''API-4 SUCCESS: Pipeline Run Updated'',
                               subSeparator, Info ''Final Status'', Info ''Total Duration'',
                               Info ''Test Summary'', Info ''Total Tests'', Info ''Passed'',
                               Info ''Failed'', Info ''Skipped'', separator, Info []] s5)
                 else (Returned JNull, logger [Error ''API-4 ERROR'', Error ''Response''] s5))"

subsection \<open>The second variant\<close>

definition clearTestCasesFile_v2 :: "env \<Rightarrow> state \<Rightarrow> (exn \<times> state) + state" where
  "clearTestCasesFile_v2 e s =
     (case ensureDirSync e s of
        Inl x \<Rightarrow> Inl (x, s)
      | Inr s1 \<Rightarrow> writeJsonSync e [] s1)"

definition readTestCasesFromFile_v2 :: "env \<Rightarrow> state \<Rightarrow> exn + obj list" where
  "readTestCasesFromFile_v2 e s = (if \<not> existsSync s then Inr [] else readJsonSync e s)"

definition saveTestCaseToFile_v2 :: "env \<Rightarrow> obj \<Rightarrow> state \<Rightarrow> (exn \<times> state) + state" where
  "saveTestCaseToFile_v2 e testCase s =
     (case readTestCasesFromFile_v2 e s of
        Inl x \<Rightarrow> Inl (x, s)
      | Inr cases \<Rightarrow> writeJsonSync e (cases @ [testCase]) s)"

text \<open>
  The request's status is not looked at; \<open>response.data?.pipeline_run?.run_id\<close> is
  stored before it is tested, and a falsy one raises inside the \<open>try\<close>.
\<close>

definition beforeAllTests_v2 :: "env \<Rightarrow> state \<Rightarrow> outcome \<times> state" where
  "beforeAllTests_v2 e s =
     (if \<not> isJenkins s then (Returned JNull, s)
      else
        let s1 = s\<lparr>startTime := Some (clock e 0)\<rparr> in
        case clearTestCasesFile_v2 e s1 of
          Inl (x, s2) \<Rightarrow> (Threw x, s2)
        | Inr s2 \<Rightarrow>
           (let s3 = logger [separator, Info ''API-1: Creating Pipeline Run'', separator] s2;
                payload =
                  [(''name'', S (jobName (cfg s) @ '' - Build #'' @ buildNumber (cfg s))),
                   (''repo_name'', S ''Puppeteer-Jest-Web''),
                   (''environment'', S (environment (cfg s))),
                   (''org'', S (orgId (cfg s))),
                   (''created_by'', S (createdBy (cfg s))),
                   (''build_number'', N (buildNumberNumeric (cfg s))),
                   (''build_url'', S (buildUrl (cfg s))),
                   (''branch'', S (gitBranch (cfg s))),
                   (''git_commit'', S (gitCommit (cfg s))),
                   (''status'', S ''running''),
                   (''start_time'', IsoTime (clock e 1))];
                s4 = send (Post (pipeline_runs_url s) payload) s3
            in case net e of
                 Rejected r \<Rightarrow> (Returned JNull, logger [Error ''API-1 ERROR''] s4)
               | Resolved st data \<Rightarrow>
                   let rid = opt_prop (opt_prop data ''pipeline_run'') ''run_id'';
                       s5 = s4\<lparr>pipelineRunId := rid\<rparr>
                   in if \<not> truthy rid
                      then (Returned JNull, logger [Error ''API-1 ERROR''] s5)
                      else (Returned data,
                            logger [Info ''Pipeline Run ID'', separator]
                              (s5\<lparr>env_PIPELINE_RUN_ID := Some (js_String rid)\<rparr>))))"

text \<open>
  The third parameter is \<open>feature\<close>, with the default \<open>'General'\<close> for \<open>undefined\<close>.
  \<open>this.testStartTime\<close> holds a number here, so a mark taken at the reading 0 is falsy;
  \<open>new Date(null)\<close> is the instant 0.
\<close>

definition afterEachTest_v2 ::
    "env \<Rightarrow> string \<Rightarrow> string \<Rightarrow> jsval \<Rightarrow> state \<Rightarrow> outcome \<times> state" where
  "afterEachTest_v2 e testTitle testStatus feature0 s =
     (if \<not> isJenkins s then (Returned JNull, s)
      else
        let (runId, s1) = getPipelineRunId s in
        if \<not> truthy runId then (Returned JNull, s1)
        else
          let feature = (if feature0 = JUndefined then JStr ''General'' else feature0);
              endTime = clock e 0;
              durationMs =
                (case testStartTime s1 of
                   Some t \<Rightarrow> if t \<noteq> 0 then endTime - t else 0
                 | None \<Rightarrow> 0);
              payload =
                [(''run'', Json runId),
                 (''name'', S testTitle),
                 (''feature'', Json feature),
                 (''status'', S testStatus),
                 (''duration'', S (formatDuration durationMs)),
                 (''start_time'',
                    IsoTime (case testStartTime s1 of Some t \<Rightarrow> t | None \<Rightarrow> 0)),
                 (''end_time'', IsoTime endTime),
                 (''report_link'', S (buildUrl (cfg s)))];
              s2 = logger [Info ''API-3 Payload''] s1;
              s3 = send (Post (test_cases_url s) payload) s2
          in case net e of
               Rejected r \<Rightarrow> (Returned JNull, logger [Error ''API-3 ERROR''] s3)
             | Resolved st data \<Rightarrow>
                 (case saveTestCaseToFile_v2 e
                         [(''name'', S testTitle),
                          (''feature'', Json feature),
                          (''status'', S testStatus),
                          (''duration'', S (formatDuration durationMs))] s3 of
                    Inl (x, s4) \<Rightarrow> (Returned JNull, logger [Error ''API-3 ERROR''] s4)
                  | Inr s4 \<Rightarrow> (Returned data, logger [Info ''API-3 SUCCESS''] s4)))"

definition afterAllTests_v2 :: "env \<Rightarrow> state \<Rightarrow> outcome \<times> state" where
  "afterAllTests_v2 e s =
     (if \<not> isJenkins s then (Returned JNull, s)
      else
        let (runId, s1) = getPipelineRunId s in
        if \<not> truthy runId then (Returned JNull, s1)
        else
          let s2 = logger [separator, Info ''API-4: Updating Pipeline Run'', separator] s1 in
          case readTestCasesFromFile_v2 e s2 of
            Inl x \<Rightarrow> (Threw x, s2)
          | Inr tests \<Rightarrow>
             (let passed = count_status ''passed'' tests;
                  failed = count_status ''failed'' tests;
                  skipped = count_status ''skipped'' tests;
                  payload =
                    [(''status'', S (if failed > 0 then ''failed'' else ''passed'')),
                     (''end_time'', IsoTime (clock e 0)),
                     (''total_tests'', N (int (length tests))),
                     (''passed'', N (int passed)),
                     (''failed'', N (int failed)),
                     (''aborted'', N (int skipped))];
                  s3 = send (Patch (pipeline_runs_url s @ js_String runId @ ''/'') payload) s2
              in case net e of
                   Rejected r \<Rightarrow> (Returned JNull, logger [Error ''API-4 ERROR''] s3)
                 | Resolved st data \<Rightarrow>
                     (Returned data,
                      logger [Info ''API-4 SUCCESS: Pipeline Updated'', Info ''Total'',
                              separator] s3)))"

subsection \<open>The harness\<close>

text \<open>
  The calls a test harness makes, with what the environment supplies to each and with
  the third argument of \<open>afterEachTest\<close> in the type the variant gives it.
\<close>

datatype 'a call =
    BeforeAll env
  | MarkStart int
  | AfterEach env string string 'a
  | AfterAll env

fun step_v1 :: "string option call \<Rightarrow> state \<Rightarrow> outcome \<times> state" where
  "step_v1 (BeforeAll e) s = beforeAllTests_v1 e s"
| "step_v1 (MarkStart t) s = (Returned JUndefined, markTestStart t s)"
| "step_v1 (AfterEach e title status msg) s = afterEachTest_v1 e title status msg s"
| "step_v1 (AfterAll e) s = afterAllTests_v1 e s"

fun step_v2 :: "jsval call \<Rightarrow> state \<Rightarrow> outcome \<times> state" where
  "step_v2 (BeforeAll e) s = beforeAllTests_v2 e s"
| "step_v2 (MarkStart t) s = (Returned JUndefined, markTestStart t s)"
| "step_v2 (AfterEach e title status feature) s = afterEachTest_v2 e title status feature s"
| "step_v2 (AfterAll e) s = afterAllTests_v2 e s"

text \<open>A sequence of calls: the outcomes in order, and the state at the end.\<close>

fun run :: "('c \<Rightarrow> state \<Rightarrow> outcome \<times> state) \<Rightarrow> 'c list \<Rightarrow> state \<Rightarrow> outcome list \<times> state" where
  "run step [] s = ([], s)"
| "run step (c # cs) s =
     (let (r, s1) = step c s; (rs, s2) = run step cs s1 in (r # rs, s2))"

subsection \<open>Notions used to state the properties\<close>

text \<open>
  A run identifier is resolvable in a state when \<open>getPipelineRunId\<close> answers a truthy
  value there: from \<open>this.pipelineRunId\<close>, or else from \<open>process.env.PIPELINE_RUN_ID\<close>.
\<close>

definition resolvable :: "state \<Rightarrow> bool" where
  "resolvable s = truthy (fst (getPipelineRunId s))"

definition fs_ok :: "env \<Rightarrow> bool" where
  "fs_ok e = (\<not> fails e EnsureDir \<and> \<not> fails e WriteJson \<and> \<not> fails e ReadJson)"

text \<open>The file operations of a call of \<open>afterEachTest\<close> succeed; other calls are not constrained.\<close>

fun record_fs_ok :: "'a call \<Rightarrow> bool" where
  "record_fs_ok (AfterEach e title status x) = fs_ok e"
| "record_fs_ok c = True"

fun is_BeforeAll :: "'a call \<Rightarrow> bool" where
  "is_BeforeAll (BeforeAll e) = True"
| "is_BeforeAll c = False"

fun is_MarkStart :: "'a call \<Rightarrow> bool" where
  "is_MarkStart (MarkStart t) = True"
| "is_MarkStart c = False"

text \<open>
  The request of a call of \<open>afterEachTest\<close> succeeded, as the variant sees it: the first
  wants a response with a status in 200..299 whose body has properties to read, the
  second wants the promise resolved.
\<close>

fun succeeded_v1 :: "axios_result \<Rightarrow> bool" where
  "succeeded_v1 (Rejected r) = False"
| "succeeded_v1 (Resolved st d) = (200 \<le> st \<and> st < 300 \<and> d \<noteq> JNull \<and> d \<noteq> JUndefined)"

fun succeeded_v2 :: "axios_result \<Rightarrow> bool" where
  "succeeded_v2 (Rejected r) = False"
| "succeeded_v2 (Resolved st d) = True"

fun delivered :: "(axios_result \<Rightarrow> bool) \<Rightarrow> 'a call \<Rightarrow> bool" where
  "delivered ok (AfterEach e title status x) = ok (net e)"
| "delivered ok c = False"

text \<open>The title and the status a call of \<open>afterEachTest\<close> was given, as a saved record holds them.\<close>

fun call_name_status :: "'a call \<Rightarrow> field option \<times> field option" where
  "call_name_status (AfterEach e title status x) = (Some (S title), Some (S status))"
| "call_name_status c = (None, None)"

fun call_status :: "'a call \<Rightarrow> string" where
  "call_status (AfterEach e title status x) = status"
| "call_status c = []"

definition name_status :: "obj \<Rightarrow> field option \<times> field option" where
  "name_status t = (field_of t ''name'', field_of t ''status'')"

text \<open>The reading of the most recent \<open>markTestStart\<close> after a sequence of calls.\<close>

fun last_mark :: "int option \<Rightarrow> 'a call list \<Rightarrow> int option" where
  "last_mark t [] = t"
| "last_mark t (MarkStart t' # cs) = last_mark (Some t') cs"
| "last_mark t (c # cs) = last_mark t cs"

text \<open>The payload of the request issued last.\<close>

fun payload_of :: "request \<Rightarrow> obj" where
  "payload_of (Post url p) = p"
| "payload_of (Patch url p) = p"

fun is_Patch :: "request \<Rightarrow> bool" where
  "is_Patch (Patch url p) = True"
| "is_Patch (Post url p) = False"

text \<open>
  A payload reports an overall status and the four counts of \<open>afterAllTests\<close>.
\<close>

definition reports :: "obj \<Rightarrow> string \<Rightarrow> nat \<Rightarrow> nat \<Rightarrow> nat \<Rightarrow> nat \<Rightarrow> bool" where
  "reports p st n_total n_passed n_failed n_aborted =
     (field_of p ''status'' = Some (S st) \<and>
      field_of p ''total_tests'' = Some (N (int n_total)) \<and>
      field_of p ''passed'' = Some (N (int n_passed)) \<and>
      field_of p ''failed'' = Some (N (int n_failed)) \<and>
      field_of p ''aborted'' = Some (N (int n_aborted)))"

text \<open>The records the test-cases file holds.\<close>

definition persisted :: "state \<Rightarrow> obj list" where
  "persisted s = (case testCasesFile s of Some (Json_array ys) \<Rightarrow> ys | _ \<Rightarrow> [])"

subsection \<open>Concrete states and environments\<close>

definition cfg0 :: config where
  "cfg0 = \<lparr>apiBaseURL = ''http://api'', orgId = ''org'', createdBy = ''me'',
            jobName = ''job'', buildNumber = ''7'', buildNumberNumeric = 7,
            buildUrl = ''http://build'', gitBranch = ''main'', gitCommit = ''abc'',
            triggeredBy = ''jenkins'', environment = ''test'', platformName = ''linux''\<rparr>"

text \<open>A helper as its constructor leaves it, with reporting enabled and no file yet.\<close>

definition fresh :: state where
  "fresh = \<lparr>isJenkins = True, cfg = cfg0, pipelineRunId = JNull, startTime = None,
            testStartTime = None, env_PIPELINE_RUN_ID = None, testCasesFile = None,
            requests = [], log = []\<rparr>"

text \<open>The same with reporting disabled.\<close>

definition disabled :: state where
  "disabled = fresh\<lparr>isJenkins := False\<rparr>"

text \<open>A helper of a worker process that finds the run identifier in the environment.\<close>

definition started :: state where
  "started = fresh\<lparr>env_PIPELINE_RUN_ID := Some ''run-42'', testCasesFile := Some (Json_array [])\<rparr>"

text \<open>All file operations succeed and the request is answered 200 with the given body.\<close>

definition answered :: "int \<Rightarrow> jsval \<Rightarrow> env" where
  "answered t d = \<lparr>clock = (\<lambda>k. t), net = Resolved 200 d, fails = (\<lambda>f. False),
      failed_write = (\<lambda>c. c)\<rparr>"

text \<open>All file operations succeed and the request fails without a response.\<close>

definition unreachable :: "int \<Rightarrow> env" where
  "unreachable t = \<lparr>clock = (\<lambda>k. t), net = Rejected None, fails = (\<lambda>f. False),
      failed_write = (\<lambda>c. c)\<rparr>"

text \<open>The request is answered, and writing the file fails.\<close>

definition unwritable :: "int \<Rightarrow> jsval \<Rightarrow> env" where
  "unwritable t d = \<lparr>clock = (\<lambda>k. t), net = Resolved 200 d, fails = (\<lambda>f. f = WriteJson),
      failed_write = (\<lambda>c. c)\<rparr>"

text \<open>A test-cases file with one passed test and one record of an unknown status.\<close>

definition mixed :: state where
  "mixed = started\<lparr>testCasesFile :=
             Some (Json_array [[(''name'', S ''TC-1''), (''status'', S ''passed'')],
                               [(''name'', S ''TC-2''), (''status'', S ''broken'')]])\<rparr>"

text \<open>A response body that carries the run identifier where either variant looks for it.\<close>

definition run_created :: jsval where
  "run_created = JObj [(''run_id'', JStr ''run-42''),
                       (''pipeline_run'', JObj [(''run_id'', JStr ''run-42'')])]"

text \<open>
  Three tests that pass and one that fails, each marked and each reported with an
  answered request. The third argument is the error message for the first variant and
  the feature label for the second.
\<close>

definition four_tests :: "'a \<Rightarrow> 'a \<Rightarrow> 'a call list" where
  "four_tests none boom =
     [MarkStart 2000, AfterEach (answered 2500 (JObj [])) ''TC-1'' ''passed'' none,
      MarkStart 3000, AfterEach (answered 3500 (JObj [])) ''TC-2'' ''passed'' none,
      MarkStart 4000, AfterEach (answered 4500 (JObj [])) ''TC-3'' ''passed'' none,
      MarkStart 5000, AfterEach (answered 5500 (JObj [])) ''TC-4'' ''failed'' boom]"

section \<open>Auxiliary facts\<close>

lemma getPipelineRunId_frame [simp]:
  "isJenkins (snd (getPipelineRunId s)) = isJenkins s"
  "cfg (snd (getPipelineRunId s)) = cfg s"
  "startTime (snd (getPipelineRunId s)) = startTime s"
  "testStartTime (snd (getPipelineRunId s)) = testStartTime s"
  "env_PIPELINE_RUN_ID (snd (getPipelineRunId s)) = env_PIPELINE_RUN_ID s"
  "testCasesFile (snd (getPipelineRunId s)) = testCasesFile s"
  "requests (snd (getPipelineRunId s)) = requests s"
  "log (snd (getPipelineRunId s)) = log s"
  by (simp_all add: getPipelineRunId_def Let_def)

lemma getPipelineRunId_cached [simp]:
  "pipelineRunId (snd (getPipelineRunId s)) = fst (getPipelineRunId s)"
  by (simp add: getPipelineRunId_def Let_def)

lemma getPipelineRunId_idem:
  "getPipelineRunId (snd (getPipelineRunId s)) = (fst (getPipelineRunId s), snd (getPipelineRunId s))"
  by (auto simp add: getPipelineRunId_def Let_def split: option.splits)

lemma logger_frame [simp]:
  "isJenkins (logger ls s) = isJenkins s"
  "cfg (logger ls s) = cfg s"
  "pipelineRunId (logger ls s) = pipelineRunId s"
  "startTime (logger ls s) = startTime s"
  "testStartTime (logger ls s) = testStartTime s"
  "env_PIPELINE_RUN_ID (logger ls s) = env_PIPELINE_RUN_ID s"
  "testCasesFile (logger ls s) = testCasesFile s"
  "requests (logger ls s) = requests s"
  "log (logger ls s) = log s @ ls"
  by (simp_all add: logger_def)

lemma send_frame [simp]:
  "isJenkins (send r s) = isJenkins s"
  "cfg (send r s) = cfg s"
  "pipelineRunId (send r s) = pipelineRunId s"
  "startTime (send r s) = startTime s"
  "testStartTime (send r s) = testStartTime s"
  "env_PIPELINE_RUN_ID (send r s) = env_PIPELINE_RUN_ID s"
  "testCasesFile (send r s) = testCasesFile s"
  "requests (send r s) = requests s @ [r]"
  "log (send r s) = log s"
  by (simp_all add: send_def)

lemma disabled_v1:
  assumes "\<not> isJenkins s"
  shows "fst (step_v1 c s) = (if is_MarkStart c then Returned JUndefined else Returned JNull)"
    and "requests (snd (step_v1 c s)) = requests s"
    and "testCasesFile (snd (step_v1 c s)) = testCasesFile s"
    and "\<not> isJenkins (snd (step_v1 c s))"
  using assms
  by (cases c; simp add: beforeAllTests_v1_def afterEachTest_v1_def afterAllTests_v1_def markTestStart_def)+

lemma disabled_v2:
  assumes "\<not> isJenkins s"
  shows "fst (step_v2 c s) = (if is_MarkStart c then Returned JUndefined else Returned JNull)"
    and "requests (snd (step_v2 c s)) = requests s"
    and "testCasesFile (snd (step_v2 c s)) = testCasesFile s"
    and "\<not> isJenkins (snd (step_v2 c s))"
  using assms
  by (cases c; simp add: beforeAllTests_v2_def afterEachTest_v2_def afterAllTests_v2_def markTestStart_def)+

lemma run_Cons:
  "run step (c # cs) s = (fst (step c s) # fst (run step cs (snd (step c s))), snd (run step cs (snd (step c s))))"
  by (simp add: Let_def split: prod.splits)

lemma disabled_run_v1:
  "\<not> isJenkins s \<Longrightarrow>
     fst (run step_v1 cs s) = map (\<lambda>c. if is_MarkStart c then Returned JUndefined else Returned JNull) cs \<and>
     requests (snd (run step_v1 cs s)) = requests s \<and>
     testCasesFile (snd (run step_v1 cs s)) = testCasesFile s"
proof (induction cs arbitrary: s)
  case Nil
  then show ?case by simp
next
  case (Cons c cs)
  from Cons.prems have d: "\<not> isJenkins (snd (step_v1 c s))" by (rule disabled_v1(4))
  show ?case
    using Cons.IH [OF d] Cons.prems
    by (simp only: run_Cons fst_conv snd_conv list.map disabled_v1 simp_thms)
qed

lemma disabled_run_v2:
  "\<not> isJenkins s \<Longrightarrow>
     fst (run step_v2 cs s) = map (\<lambda>c. if is_MarkStart c then Returned JUndefined else Returned JNull) cs \<and>
     requests (snd (run step_v2 cs s)) = requests s \<and>
     testCasesFile (snd (run step_v2 cs s)) = testCasesFile s"
proof (induction cs arbitrary: s)
  case Nil
  then show ?case by simp
next
  case (Cons c cs)
  from Cons.prems have d: "\<not> isJenkins (snd (step_v2 c s))" by (rule disabled_v2(4))
  show ?case
    using Cons.IH [OF d] Cons.prems
    by (simp only: run_Cons fst_conv snd_conv list.map disabled_v2 simp_thms)
qed

lemma run_append:
  "run step (xs @ ys) s =
     (fst (run step xs s) @ fst (run step ys (snd (run step xs s))),
      snd (run step ys (snd (run step xs s))))"
  by (induction xs arbitrary: s) (simp_all add: run_Cons del: run.simps(2))

lemma getPipelineRunId_truthy:
  "truthy (pipelineRunId s) \<Longrightarrow> getPipelineRunId s = (pipelineRunId s, s)"
  by (simp add: getPipelineRunId_def)

lemma resolvable_cached [simp]:
  "resolvable (snd (getPipelineRunId s)) = resolvable s"
  by (simp add: resolvable_def getPipelineRunId_idem)

lemma resolvable_frame:
  "pipelineRunId s' = pipelineRunId s \<Longrightarrow> env_PIPELINE_RUN_ID s' = env_PIPELINE_RUN_ID s \<Longrightarrow>
   resolvable s' = resolvable s"
  by (simp add: resolvable_def getPipelineRunId_def Let_def)

lemma resolvable_logger [simp]: "resolvable (logger ls s) = resolvable s"
  by (rule resolvable_frame) simp_all

lemma resolvable_send [simp]: "resolvable (send r s) = resolvable s"
  by (rule resolvable_frame) simp_all

lemma markTestStart_frame [simp]:
  "isJenkins (markTestStart t s) = isJenkins s"
  "pipelineRunId (markTestStart t s) = pipelineRunId s"
  "env_PIPELINE_RUN_ID (markTestStart t s) = env_PIPELINE_RUN_ID s"
  "testStartTime (markTestStart t s) = Some t"
  "testCasesFile (markTestStart t s) = testCasesFile s"
  "requests (markTestStart t s) = requests s"
  "log (markTestStart t s) = log s"
  by (simp_all add: markTestStart_def)

lemma resolvable_mark [simp]: "resolvable (markTestStart t s) = resolvable s"
  by (rule resolvable_frame) simp_all

lemma writeJsonSync_ok:
  "\<not> fails e WriteJson \<Longrightarrow> writeJsonSync e v s = Inr (s\<lparr>testCasesFile := Some (Json_array v)\<rparr>)"
  by (simp add: writeJsonSync_def)

lemma writeJsonSync_fail:
  "fails e WriteJson \<Longrightarrow>
     writeJsonSync e v s =
       Inl (FsError WriteJson, s\<lparr>testCasesFile := failed_write e (testCasesFile s)\<rparr>)"
  by (simp add: writeJsonSync_def)

lemma readJsonSync_ok:
  "\<not> fails e ReadJson \<Longrightarrow> testCasesFile s = Some (Json_array v) \<Longrightarrow> readJsonSync e s = Inr v"
  by (simp add: readJsonSync_def)

lemma saveTestCaseToFile_v1_frame [simp]:
  "isJenkins (saveTestCaseToFile_v1 e i n st d s) = isJenkins s"
  "pipelineRunId (saveTestCaseToFile_v1 e i n st d s) = pipelineRunId s"
  "env_PIPELINE_RUN_ID (saveTestCaseToFile_v1 e i n st d s) = env_PIPELINE_RUN_ID s"
  "testStartTime (saveTestCaseToFile_v1 e i n st d s) = testStartTime s"
  "startTime (saveTestCaseToFile_v1 e i n st d s) = startTime s"
  "requests (saveTestCaseToFile_v1 e i n st d s) = requests s"
  by (simp_all add: saveTestCaseToFile_v1_def writeJsonSync_def split: sum.splits if_splits)

lemma resolvable_save_v1 [simp]:
  "resolvable (saveTestCaseToFile_v1 e i n st d s) = resolvable s"
  by (rule resolvable_frame) simp_all

lemma saveTestCaseToFile_v1_ok:
  assumes "fs_ok e" "testCasesFile s = Some (Json_array xs)"
  shows "testCasesFile (saveTestCaseToFile_v1 e i n st d s) =
           Some (Json_array (xs @ [[(''test_id'', Json i), (''name'', S n), (''status'', S st),
                                    (''duration'', d), (''timestamp'', IsoTime (clock e 3))]]))"
  using assms
  by (simp add: saveTestCaseToFile_v1_def existsSync_def readJsonSync_def writeJsonSync_def fs_ok_def)

lemma get_prop_ok:
  "d \<noteq> JNull \<Longrightarrow> d \<noteq> JUndefined \<Longrightarrow> \<exists>v. get_prop d k = Inr v"
  by (cases d) simp_all

lemma get_prop_TypeError:
  "d = JNull \<or> d = JUndefined \<Longrightarrow> get_prop d k = Inl TypeError"
  by auto


lemma afterEachTest_v1_requests:
  assumes "isJenkins s" "resolvable s"
  shows "requests (snd (afterEachTest_v1 e t st m s)) =
           requests s @
           [Post (test_cases_url s)
              ([(''name'', S t),
                (''status'', S st),
                (''run'', Json (fst (getPipelineRunId s))),
                (''duration'',
                   SecondsFixed2 (case testStartTime s of Some t0 \<Rightarrow> clock e 0 - t0 | None \<Rightarrow> 0)),
                (''created_at'', IsoTime (clock e 1)),
                (''start_time'',
                   (case testStartTime s of Some t0 \<Rightarrow> IsoTime t0 | None \<Rightarrow> IsoTime (clock e 2)))]
               @ (case m of
                    None \<Rightarrow> []
                  | Some msg \<Rightarrow>
                      if msg \<noteq> [] \<and> st = ''failed''
                      then [(''error_message'', S (take 500 msg))] else []))]"
  using assms
  by (simp add: afterEachTest_v1_def resolvable_def case_prod_beta Let_def
           split: axios_result.splits sum.splits)

lemma afterEachTest_v1_keeps:
  "isJenkins (snd (afterEachTest_v1 e t st m s)) = isJenkins s"
  "resolvable (snd (afterEachTest_v1 e t st m s)) = resolvable s"
  "testStartTime (snd (afterEachTest_v1 e t st m s)) = testStartTime s"
  by (simp_all add: afterEachTest_v1_def case_prod_beta Let_def
           split: axios_result.splits sum.splits)

lemma afterEachTest_v1_failed:
  assumes "\<not> succeeded_v1 (net e)"
  shows "fst (afterEachTest_v1 e t st m s) = Returned JNull"
    and "testCasesFile (snd (afterEachTest_v1 e t st m s)) = testCasesFile s"
  using assms
  by (auto simp add: afterEachTest_v1_def case_prod_beta Let_def
           split: axios_result.splits sum.splits)

lemma afterEachTest_v1_unresolved:
  assumes "\<not> resolvable s"
  shows "fst (afterEachTest_v1 e t st m s) = Returned JNull"
    and "testCasesFile (snd (afterEachTest_v1 e t st m s)) = testCasesFile s"
    and "requests (snd (afterEachTest_v1 e t st m s)) = requests s"
  using assms
  by (simp_all add: afterEachTest_v1_def resolvable_def case_prod_beta Let_def)

lemma afterEachTest_v1_saved:
  assumes "isJenkins s" "resolvable s" "net e = Resolved code d" "succeeded_v1 (net e)"
    and "fs_ok e" "testCasesFile s = Some (Json_array xs)"
  shows "fst (afterEachTest_v1 e t st m s) = Returned d"
    and "\<exists>i. testCasesFile (snd (afterEachTest_v1 e t st m s)) =
           Some (Json_array (xs @
             [[(''test_id'', Json i), (''name'', S t), (''status'', S st),
               (''duration'',
                  Seconds (case testStartTime s of Some t0 \<Rightarrow> clock e 0 - t0 | None \<Rightarrow> 0)),
               (''timestamp'', IsoTime (clock e 3))]]))"
proof -
  from assms(3,4) obtain v where v: "get_prop d ''test_id'' = Inr v"
    using get_prop_ok [of d "''test_id''"] by auto
  from assms(3,4) have c: "200 \<le> code" "code < 300" by simp_all
  show "fst (afterEachTest_v1 e t st m s) = Returned d"
    using assms(1,2,3) c v
    by (simp add: afterEachTest_v1_def resolvable_def case_prod_beta Let_def)
  show "\<exists>i. testCasesFile (snd (afterEachTest_v1 e t st m s)) =
           Some (Json_array (xs @
             [[(''test_id'', Json i), (''name'', S t), (''status'', S st),
               (''duration'',
                  Seconds (case testStartTime s of Some t0 \<Rightarrow> clock e 0 - t0 | None \<Rightarrow> 0)),
               (''timestamp'', IsoTime (clock e 3))]]))"
    using assms(1,2,3,5,6) c v
    by (simp add: afterEachTest_v1_def resolvable_def case_prod_beta Let_def
          saveTestCaseToFile_v1_ok)
qed

lemma readTestCasesFromFile_v1_frame [simp]:
  "isJenkins (snd (readTestCasesFromFile_v1 e s)) = isJenkins s"
  "pipelineRunId (snd (readTestCasesFromFile_v1 e s)) = pipelineRunId s"
  "env_PIPELINE_RUN_ID (snd (readTestCasesFromFile_v1 e s)) = env_PIPELINE_RUN_ID s"
  "testStartTime (snd (readTestCasesFromFile_v1 e s)) = testStartTime s"
  "startTime (snd (readTestCasesFromFile_v1 e s)) = startTime s"
  "testCasesFile (snd (readTestCasesFromFile_v1 e s)) = testCasesFile s"
  "requests (snd (readTestCasesFromFile_v1 e s)) = requests s"
  by (simp_all add: readTestCasesFromFile_v1_def split: sum.splits)

lemma resolvable_read_v1 [simp]:
  "resolvable (snd (readTestCasesFromFile_v1 e s)) = resolvable s"
  by (rule resolvable_frame) simp_all

lemma afterAllTests_v1_keeps:
  "isJenkins (snd (afterAllTests_v1 e s)) = isJenkins s"
  "resolvable (snd (afterAllTests_v1 e s)) = resolvable s"
  "testStartTime (snd (afterAllTests_v1 e s)) = testStartTime s"
  "testCasesFile (snd (afterAllTests_v1 e s)) = testCasesFile s"
  by (cases "net e"; simp add: afterAllTests_v1_def case_prod_beta Let_def)+

lemma readTestCasesFromFile_v1_ok:
  assumes "\<not> fails e ReadJson" "testCasesFile s = Some (Json_array tests)"
  shows "fst (readTestCasesFromFile_v1 e s) = tests"
  using assms by (simp add: readTestCasesFromFile_v1_def existsSync_def readJsonSync_def)

lemma afterAllTests_v1_requests:
  assumes "isJenkins s" "resolvable s"
    and "\<not> fails e ReadJson" "testCasesFile s = Some (Json_array tests)"
  shows "requests (snd (afterAllTests_v1 e s)) =
           requests s @
           [Patch (pipeline_runs_url s @ js_String (fst (getPipelineRunId s)) @ ''/'')
              [(''status'', S (if count_status ''failed'' tests = 0 then ''passed'' else ''failed'')),
               (''end_time'', IsoTime (clock e 1)),
               (''duration'',
                  N (case startTime s of Some t \<Rightarrow> (clock e 0 - t) div 1000 | None \<Rightarrow> 0)),
               (''total_tests'', N (int (length tests))),
               (''passed'', N (int (count_status ''passed'' tests))),
               (''failed'', N (int (count_status ''failed'' tests))),
               (''aborted'', N (int (count_status ''skipped'' tests)))]]"
proof -
  have r: "fst (readTestCasesFromFile_v1 e
             (logger [Info [], separator, Info ''API-4: Updating Pipeline Run with Final Results'',
                      separator] (snd (getPipelineRunId s)))) = tests"
    by (rule readTestCasesFromFile_v1_ok) (simp_all add: assms)
  have z: "count_status k [] = 0" for k by (simp add: count_status_def)
  show ?thesis
    using assms(1,2)
    by (cases "tests = []")
       (simp_all add: afterAllTests_v1_def resolvable_def case_prod_beta Let_def r z
           split: axios_result.splits)
qed

lemma clearTestCasesFile_v1_frame [simp]:
  "isJenkins (clearTestCasesFile_v1 e s) = isJenkins s"
  "pipelineRunId (clearTestCasesFile_v1 e s) = pipelineRunId s"
  "env_PIPELINE_RUN_ID (clearTestCasesFile_v1 e s) = env_PIPELINE_RUN_ID s"
  "testStartTime (clearTestCasesFile_v1 e s) = testStartTime s"
  "startTime (clearTestCasesFile_v1 e s) = startTime s"
  "requests (clearTestCasesFile_v1 e s) = requests s"
  by (simp_all add: clearTestCasesFile_v1_def ensureDirSync_def writeJsonSync_def)

lemma clearTestCasesFile_v1_ok:
  "fs_ok e \<Longrightarrow> testCasesFile (clearTestCasesFile_v1 e s) = Some (Json_array [])"
  by (simp add: clearTestCasesFile_v1_def ensureDirSync_def writeJsonSync_def fs_ok_def)

lemma beforeAllTests_v1_keeps:
  "isJenkins (snd (beforeAllTests_v1 e s)) = isJenkins s"
  "testStartTime (snd (beforeAllTests_v1 e s)) = testStartTime s"
proof -
  show "isJenkins (snd (beforeAllTests_v1 e s)) = isJenkins s"
  proof (cases "net e")
    case (Rejected r)
    then show ?thesis by (simp add: beforeAllTests_v1_def Let_def)
  next
    case (Resolved code d)
    then show ?thesis
      by (cases "get_prop d ''run_id''") (simp_all add: beforeAllTests_v1_def Let_def)
  qed
  show "testStartTime (snd (beforeAllTests_v1 e s)) = testStartTime s"
  proof (cases "net e")
    case (Rejected r)
    then show ?thesis by (simp add: beforeAllTests_v1_def Let_def)
  next
    case (Resolved code d)
    then show ?thesis
      by (cases "get_prop d ''run_id''") (simp_all add: beforeAllTests_v1_def Let_def)
  qed
qed

lemma beforeAllTests_v1_cleared:
  assumes "isJenkins s" "fs_ok e"
  shows "testCasesFile (snd (beforeAllTests_v1 e s)) = Some (Json_array [])"
proof (cases "net e")
  case (Rejected r)
  then show ?thesis using assms by (simp add: beforeAllTests_v1_def Let_def clearTestCasesFile_v1_ok)
next
  case (Resolved code d)
  then show ?thesis using assms
    by (cases "get_prop d ''run_id''")
       (simp_all add: beforeAllTests_v1_def Let_def clearTestCasesFile_v1_ok)
qed

text \<open>Second variant.\<close>

lemma clearTestCasesFile_v2_ok:
  "fs_ok e \<Longrightarrow> clearTestCasesFile_v2 e s = Inr (s\<lparr>testCasesFile := Some (Json_array [])\<rparr>)"
  by (simp add: clearTestCasesFile_v2_def ensureDirSync_def writeJsonSync_def fs_ok_def)

lemma clearTestCasesFile_v2_cases:
  "(\<exists>x c. clearTestCasesFile_v2 e s = Inl (x, s\<lparr>testCasesFile := c\<rparr>)) \<or>
   clearTestCasesFile_v2 e s = Inr (s\<lparr>testCasesFile := Some (Json_array [])\<rparr>)"
proof (cases "fails e EnsureDir")
  case True
  then have "clearTestCasesFile_v2 e s = Inl (FsError EnsureDir, s\<lparr>testCasesFile := testCasesFile s\<rparr>)"
    by (simp add: clearTestCasesFile_v2_def ensureDirSync_def)
  then show ?thesis by blast
next
  case False
  then show ?thesis
    by (cases "fails e WriteJson")
       (auto simp add: clearTestCasesFile_v2_def ensureDirSync_def writeJsonSync_def)
qed

lemma beforeAllTests_v2_keeps:
  "isJenkins (snd (beforeAllTests_v2 e s)) = isJenkins s"
  "testStartTime (snd (beforeAllTests_v2 e s)) = testStartTime s"
proof -
  show "isJenkins (snd (beforeAllTests_v2 e s)) = isJenkins s"
    using clearTestCasesFile_v2_cases [of e "s\<lparr>startTime := Some (clock e 0)\<rparr>"]
    by (cases "net e") (auto simp add: beforeAllTests_v2_def Let_def)
  show "testStartTime (snd (beforeAllTests_v2 e s)) = testStartTime s"
    using clearTestCasesFile_v2_cases [of e "s\<lparr>startTime := Some (clock e 0)\<rparr>"]
    by (cases "net e") (auto simp add: beforeAllTests_v2_def Let_def)
qed

lemma beforeAllTests_v2_cleared:
  assumes "isJenkins s" "fs_ok e"
  shows "testCasesFile (snd (beforeAllTests_v2 e s)) = Some (Json_array [])"
    and "\<forall>x. fst (beforeAllTests_v2 e s) \<noteq> Threw x"
  using assms
  by (cases "net e"; simp add: beforeAllTests_v2_def Let_def clearTestCasesFile_v2_ok)+

lemma saveTestCaseToFile_v2_ok:
  assumes "fs_ok e" "testCasesFile s = Some (Json_array xs)"
  shows "saveTestCaseToFile_v2 e tc s = Inr (s\<lparr>testCasesFile := Some (Json_array (xs @ [tc]))\<rparr>)"
  using assms
  by (simp add: saveTestCaseToFile_v2_def readTestCasesFromFile_v2_def existsSync_def
        readJsonSync_def writeJsonSync_def fs_ok_def)

lemma saveTestCaseToFile_v2_Inr:
  assumes "saveTestCaseToFile_v2 e tc s = Inr s'"
  shows "\<exists>v. s' = s\<lparr>testCasesFile := Some (Json_array v)\<rparr>"
  using assms
  by (auto simp add: saveTestCaseToFile_v2_def readTestCasesFromFile_v2_def existsSync_def
        readJsonSync_def writeJsonSync_def split: option.splits file_content.splits if_splits)

lemma saveTestCaseToFile_v2_Inl:
  assumes "saveTestCaseToFile_v2 e tc s = Inl (x, s')"
  shows "\<exists>c. s' = s\<lparr>testCasesFile := c\<rparr>"
proof (cases "readTestCasesFromFile_v2 e s")
  case (Inl y)
  with assms have "s' = s\<lparr>testCasesFile := testCasesFile s\<rparr>"
    by (simp add: saveTestCaseToFile_v2_def)
  then show ?thesis by blast
next
  case (Inr cases)
  with assms show ?thesis
    by (auto simp add: saveTestCaseToFile_v2_def writeJsonSync_def split: if_splits)
qed

lemma resolvable_file_update [simp]:
  "resolvable (s\<lparr>testCasesFile := f\<rparr>) = resolvable s"
  by (rule resolvable_frame) simp_all

lemma afterEachTest_v2_requests:
  assumes "isJenkins s" "resolvable s"
  shows "requests (snd (afterEachTest_v2 e t st f s)) =
           requests s @
           [Post (test_cases_url s)
              [(''run'', Json (fst (getPipelineRunId s))),
               (''name'', S t),
               (''feature'', Json (if f = JUndefined then JStr ''General'' else f)),
               (''status'', S st),
               (''duration'',
                  S (formatDuration
                       (case testStartTime s of
                          Some t0 \<Rightarrow> if t0 \<noteq> 0 then clock e 0 - t0 else 0
                        | None \<Rightarrow> 0))),
               (''start_time'', IsoTime (case testStartTime s of Some t0 \<Rightarrow> t0 | None \<Rightarrow> 0)),
               (''end_time'', IsoTime (clock e 0)),
               (''report_link'', S (buildUrl (cfg s)))]]"
proof (cases "net e")
  case (Rejected r)
  then show ?thesis using assms
    by (simp add: afterEachTest_v2_def resolvable_def case_prod_beta Let_def)
next
  case (Resolved code d)
  then show ?thesis using assms
    by (auto simp add: afterEachTest_v2_def resolvable_def case_prod_beta Let_def
          split: sum.splits prod.splits dest!: saveTestCaseToFile_v2_Inr saveTestCaseToFile_v2_Inl)
qed

lemma afterEachTest_v2_keeps:
  "isJenkins (snd (afterEachTest_v2 e t st f s)) = isJenkins s"
  "resolvable (snd (afterEachTest_v2 e t st f s)) = resolvable s"
  "testStartTime (snd (afterEachTest_v2 e t st f s)) = testStartTime s"
  by (cases "net e";
      auto simp add: afterEachTest_v2_def case_prod_beta Let_def
        split: sum.splits prod.splits dest!: saveTestCaseToFile_v2_Inr saveTestCaseToFile_v2_Inl)+

lemma afterEachTest_v2_failed:
  assumes "\<not> succeeded_v2 (net e)"
  shows "fst (afterEachTest_v2 e t st f s) = Returned JNull"
    and "testCasesFile (snd (afterEachTest_v2 e t st f s)) = testCasesFile s"
  using assms
  by (cases "net e"; simp add: afterEachTest_v2_def case_prod_beta Let_def)+

lemma afterEachTest_v2_unresolved:
  assumes "\<not> resolvable s"
  shows "fst (afterEachTest_v2 e t st f s) = Returned JNull"
    and "testCasesFile (snd (afterEachTest_v2 e t st f s)) = testCasesFile s"
    and "requests (snd (afterEachTest_v2 e t st f s)) = requests s"
    and "log (snd (afterEachTest_v2 e t st f s)) = log s"
  using assms
  by (simp_all add: afterEachTest_v2_def resolvable_def case_prod_beta Let_def)

lemma afterEachTest_v2_saved:
  assumes "isJenkins s" "resolvable s" "net e = Resolved code d"
    and "fs_ok e" "testCasesFile s = Some (Json_array xs)"
  shows "fst (afterEachTest_v2 e t st f s) = Returned d"
    and "testCasesFile (snd (afterEachTest_v2 e t st f s)) =
           Some (Json_array (xs @
             [[(''name'', S t),
               (''feature'', Json (if f = JUndefined then JStr ''General'' else f)),
               (''status'', S st),
               (''duration'',
                  S (formatDuration
                       (case testStartTime s of
                          Some t0 \<Rightarrow> if t0 \<noteq> 0 then clock e 0 - t0 else 0
                        | None \<Rightarrow> 0)))]]))"
  using assms
  by (simp_all add: afterEachTest_v2_def resolvable_def case_prod_beta Let_def
        saveTestCaseToFile_v2_ok)

lemma afterAllTests_v2_keeps:
  "isJenkins (snd (afterAllTests_v2 e s)) = isJenkins s"
  "resolvable (snd (afterAllTests_v2 e s)) = resolvable s"
  "testStartTime (snd (afterAllTests_v2 e s)) = testStartTime s"
  "testCasesFile (snd (afterAllTests_v2 e s)) = testCasesFile s"
  by (cases "net e";
      cases "readTestCasesFromFile_v2 e
               (logger [separator, Info ''API-4: Updating Pipeline Run'', separator]
                  (snd (getPipelineRunId s)))";
      simp add: afterAllTests_v2_def case_prod_beta Let_def)+

lemma readTestCasesFromFile_v2_ok:
  assumes "\<not> fails e ReadJson" "testCasesFile s = Some (Json_array tests)"
  shows "readTestCasesFromFile_v2 e s = Inr tests"
  using assms by (simp add: readTestCasesFromFile_v2_def existsSync_def readJsonSync_def)

lemma afterAllTests_v2_requests:
  assumes "isJenkins s" "resolvable s"
    and "\<not> fails e ReadJson" "testCasesFile s = Some (Json_array tests)"
  shows "requests (snd (afterAllTests_v2 e s)) =
           requests s @
           [Patch (pipeline_runs_url s @ js_String (fst (getPipelineRunId s)) @ ''/'')
              [(''status'', S (if count_status ''failed'' tests > 0 then ''failed'' else ''passed'')),
               (''end_time'', IsoTime (clock e 0)),
               (''total_tests'', N (int (length tests))),
               (''passed'', N (int (count_status ''passed'' tests))),
               (''failed'', N (int (count_status ''failed'' tests))),
               (''aborted'', N (int (count_status ''skipped'' tests)))]]"
proof -
  have r: "readTestCasesFromFile_v2 e
             (logger [separator, Info ''API-4: Updating Pipeline Run'', separator]
                (snd (getPipelineRunId s))) = Inr tests"
    by (rule readTestCasesFromFile_v2_ok) (simp_all add: assms)
  show ?thesis
    using assms(1,2)
    by (cases "net e")
       (simp_all add: afterAllTests_v2_def resolvable_def case_prod_beta Let_def r)
qed

text \<open>Sequences of calls.\<close>

lemma run_file_generic:
  assumes step: "\<And>c s xs. isJenkins s \<Longrightarrow> resolvable s \<Longrightarrow> testCasesFile s = Some (Json_array xs) \<Longrightarrow>
                   \<not> is_BeforeAll c \<Longrightarrow> record_fs_ok c \<Longrightarrow>
                   isJenkins (snd (step c s)) \<and> resolvable (snd (step c s)) \<and>
                   (\<exists>ys. testCasesFile (snd (step c s)) = Some (Json_array (xs @ ys)) \<and>
                         map name_status ys = map call_name_status (filter (delivered ok) [c]))"
    and "isJenkins s" "resolvable s" "testCasesFile s = Some (Json_array xs)"
    and "\<forall>c\<in>set cs. \<not> is_BeforeAll c \<and> record_fs_ok c"
  shows "isJenkins (snd (run step cs s)) \<and> resolvable (snd (run step cs s)) \<and>
         (\<exists>ys. testCasesFile (snd (run step cs s)) = Some (Json_array (xs @ ys)) \<and>
               map name_status ys = map call_name_status (filter (delivered ok) cs))"
  using assms(2-)
proof (induction cs arbitrary: s xs)
  case Nil
  then show ?case by simp
next
  case (Cons c cs)
  from Cons.prems have c: "\<not> is_BeforeAll c" "record_fs_ok c" by simp_all
  from step [OF Cons.prems(1,2,3) c]
  obtain ys where s1: "isJenkins (snd (step c s))" "resolvable (snd (step c s))"
      "testCasesFile (snd (step c s)) = Some (Json_array (xs @ ys))"
      "map name_status ys = map call_name_status (filter (delivered ok) [c])"
    by blast
  from Cons.prems have rest: "\<forall>c\<in>set cs. \<not> is_BeforeAll c \<and> record_fs_ok c" by simp
  from Cons.IH [OF s1(1,2,3) rest]
  obtain zs where s2: "isJenkins (snd (run step cs (snd (step c s))))"
      "resolvable (snd (run step cs (snd (step c s))))"
      "testCasesFile (snd (run step cs (snd (step c s)))) = Some (Json_array ((xs @ ys) @ zs))"
      "map name_status zs = map call_name_status (filter (delivered ok) cs)"
    by blast
  have "map name_status (ys @ zs) = map call_name_status (filter (delivered ok) (c # cs))"
    using s1(4) s2(4) by (cases "delivered ok c") simp_all
  with s2(1,2,3) show ?case
    by (simp only: run_Cons snd_conv append_assoc) blast
qed

lemma step_v1_file:
  assumes "isJenkins s" "resolvable s" "testCasesFile s = Some (Json_array xs)"
    and "\<not> is_BeforeAll c" "record_fs_ok c"
  shows "isJenkins (snd (step_v1 c s)) \<and> resolvable (snd (step_v1 c s)) \<and>
         (\<exists>ys. testCasesFile (snd (step_v1 c s)) = Some (Json_array (xs @ ys)) \<and>
               map name_status ys = map call_name_status (filter (delivered succeeded_v1) [c]))"
proof (cases c)
  case (BeforeAll e)
  with assms(4) show ?thesis by simp
next
  case (MarkStart t)
  with assms show ?thesis by simp
next
  case (AfterEach e t st m)
  show ?thesis
  proof (cases "succeeded_v1 (net e)")
    case True
    then obtain code d where n: "net e = Resolved code d" by (cases "net e") simp_all
    from afterEachTest_v1_saved(2) [OF assms(1,2) n True _ assms(3), of t st m] assms(5) AfterEach
    obtain i where "testCasesFile (snd (afterEachTest_v1 e t st m s)) =
           Some (Json_array (xs @
             [[(''test_id'', Json i), (''name'', S t), (''status'', S st),
               (''duration'',
                  Seconds (case testStartTime s of Some t0 \<Rightarrow> clock e 0 - t0 | None \<Rightarrow> 0)),
               (''timestamp'', IsoTime (clock e 3))]]))"
      by auto
    with True AfterEach assms(1,2) show ?thesis
      by (simp add: afterEachTest_v1_keeps name_status_def field_of_def)
  next
    case False
    with AfterEach assms(1,2,3) show ?thesis
      by (simp add: afterEachTest_v1_keeps afterEachTest_v1_failed)
  qed
next
  case (AfterAll e)
  with assms show ?thesis by (simp add: afterAllTests_v1_keeps)
qed

lemma step_v2_file:
  assumes "isJenkins s" "resolvable s" "testCasesFile s = Some (Json_array xs)"
    and "\<not> is_BeforeAll c" "record_fs_ok c"
  shows "isJenkins (snd (step_v2 c s)) \<and> resolvable (snd (step_v2 c s)) \<and>
         (\<exists>ys. testCasesFile (snd (step_v2 c s)) = Some (Json_array (xs @ ys)) \<and>
               map name_status ys = map call_name_status (filter (delivered succeeded_v2) [c]))"
proof (cases c)
  case (BeforeAll e)
  with assms(4) show ?thesis by simp
next
  case (MarkStart t)
  with assms show ?thesis by simp
next
  case (AfterEach e t st f)
  show ?thesis
  proof (cases "net e")
    case (Resolved code d)
    from afterEachTest_v2_saved(2) [OF assms(1,2) Resolved _ assms(3), of t st f] assms(5) AfterEach
    have "testCasesFile (snd (afterEachTest_v2 e t st f s)) =
           Some (Json_array (xs @
             [[(''name'', S t),
               (''feature'', Json (if f = JUndefined then JStr ''General'' else f)),
               (''status'', S st),
               (''duration'',
                  S (formatDuration
                       (case testStartTime s of
                          Some t0 \<Rightarrow> if t0 \<noteq> 0 then clock e 0 - t0 else 0
                        | None \<Rightarrow> 0)))]]))"
      by simp
    with Resolved AfterEach assms(1,2) show ?thesis
      by (simp add: afterEachTest_v2_keeps name_status_def field_of_def)
  next
    case (Rejected r)
    with AfterEach assms(1,2,3) show ?thesis
      by (simp add: afterEachTest_v2_keeps afterEachTest_v2_failed)
  qed
next
  case (AfterAll e)
  with assms show ?thesis by (simp add: afterAllTests_v2_keeps)
qed


lemma afterAllTests_v1_unresolved:
  assumes "isJenkins s" "\<not> resolvable s"
  shows "fst (afterAllTests_v1 e s) = Returned JNull"
    and "testCasesFile (snd (afterAllTests_v1 e s)) = testCasesFile s"
    and "requests (snd (afterAllTests_v1 e s)) = requests s"
    and "log (snd (afterAllTests_v1 e s)) = log s @ [Error ''API-4 Skipped: No Pipeline Run ID available'']"
  using assms
  by (simp_all add: afterAllTests_v1_def resolvable_def case_prod_beta Let_def)

lemma afterAllTests_v2_unresolved:
  assumes "\<not> resolvable s"
  shows "fst (afterAllTests_v2 e s) = Returned JNull"
    and "testCasesFile (snd (afterAllTests_v2 e s)) = testCasesFile s"
    and "requests (snd (afterAllTests_v2 e s)) = requests s"
    and "log (snd (afterAllTests_v2 e s)) = log s"
  using assms
  by (simp_all add: afterAllTests_v2_def resolvable_def case_prod_beta Let_def)

lemma afterEachTest_v1_unresolved_log:
  assumes "isJenkins s" "\<not> resolvable s"
  shows "log (snd (afterEachTest_v1 e t st m s)) =
           log s @ [Error ''API-3 Skipped: No Pipeline Run ID available'']"
  using assms
  by (simp add: afterEachTest_v1_def resolvable_def case_prod_beta Let_def)

lemma run_unresolved_generic:
  assumes step: "\<And>c s. \<not> resolvable s \<Longrightarrow> \<not> is_BeforeAll c \<Longrightarrow>
                   \<not> resolvable (snd (step c s)) \<and> testCasesFile (snd (step c s)) = testCasesFile s"
    and "\<not> resolvable s" "\<forall>c\<in>set cs. \<not> is_BeforeAll c"
  shows "\<not> resolvable (snd (run step cs s)) \<and> testCasesFile (snd (run step cs s)) = testCasesFile s"
  using assms(2-)
proof (induction cs arbitrary: s)
  case Nil
  then show ?case by simp
next
  case (Cons c cs)
  from Cons.prems have c: "\<not> is_BeforeAll c" and rest: "\<forall>c\<in>set cs. \<not> is_BeforeAll c"
    by simp_all
  from step [OF Cons.prems(1) c]
  have s1: "\<not> resolvable (snd (step c s))" "testCasesFile (snd (step c s)) = testCasesFile s"
    by simp_all
  from Cons.IH [OF s1(1) rest] s1(2) show ?case
    by (simp only: run_Cons snd_conv) simp
qed

lemma step_v1_unresolved:
  assumes "\<not> resolvable s" "\<not> is_BeforeAll c"
  shows "\<not> resolvable (snd (step_v1 c s)) \<and> testCasesFile (snd (step_v1 c s)) = testCasesFile s"
  using assms
  by (cases c)
     (simp_all add: afterEachTest_v1_keeps afterAllTests_v1_keeps afterEachTest_v1_unresolved)

lemma step_v2_unresolved:
  assumes "\<not> resolvable s" "\<not> is_BeforeAll c"
  shows "\<not> resolvable (snd (step_v2 c s)) \<and> testCasesFile (snd (step_v2 c s)) = testCasesFile s"
  using assms
  by (cases c)
     (simp_all add: afterEachTest_v2_keeps afterAllTests_v2_keeps afterEachTest_v2_unresolved)

lemma run_v1_last_mark:
  "testStartTime (snd (run step_v1 cs s)) = last_mark (testStartTime s) cs"
proof (induction cs arbitrary: s)
  case Nil
  then show ?case by simp
next
  case (Cons c cs)
  show ?case
    by (cases c)
       (simp_all only: run_Cons snd_conv Cons.IH step_v1.simps last_mark.simps
          beforeAllTests_v1_keeps afterEachTest_v1_keeps afterAllTests_v1_keeps
          markTestStart_frame)
qed

lemma run_v2_last_mark:
  "testStartTime (snd (run step_v2 cs s)) = last_mark (testStartTime s) cs"
proof (induction cs arbitrary: s)
  case Nil
  then show ?case by simp
next
  case (Cons c cs)
  show ?case
    by (cases c)
       (simp_all only: run_Cons snd_conv Cons.IH step_v2.simps last_mark.simps
          beforeAllTests_v2_keeps afterEachTest_v2_keeps afterAllTests_v2_keeps
          markTestStart_frame)
qed

text \<open>Counting statuses.\<close>

lemma count_status_Nil [simp]: "count_status k [] = 0"
  by (simp add: count_status_def)

lemma count_status_Cons [simp]:
  "count_status k (t # ts) =
     (if field_of t ''status'' = Some (S k) then 1 else 0) + count_status k ts"
  by (simp add: count_status_def)

lemma count_status_sum:
  "count_status ''passed'' ts + count_status ''failed'' ts + count_status ''skipped'' ts
     \<le> length ts"
  by (induction ts) auto

lemma count_status_sum_eq:
  "(count_status ''passed'' ts + count_status ''failed'' ts + count_status ''skipped'' ts
      = length ts) \<longleftrightarrow>
   (\<forall>t\<in>set ts. field_of t ''status'' = Some (S ''passed'') \<or>
               field_of t ''status'' = Some (S ''failed'') \<or>
               field_of t ''status'' = Some (S ''skipped''))"
proof (induction ts)
  case Nil
  then show ?case by simp
next
  case (Cons t ts)
  have le: "count_status ''passed'' ts + count_status ''failed'' ts + count_status ''skipped'' ts
              \<le> length ts"
    by (rule count_status_sum)
  show ?case using Cons.IH le by auto
qed

lemma count_status_pos:
  "(0 < count_status k ts) \<longleftrightarrow> (\<exists>t\<in>set ts. field_of t ''status'' = Some (S k))"
  by (induction ts) auto

lemma delivered_call_name_status:
  "delivered ok c \<Longrightarrow> snd (call_name_status c) = Some (S (call_status c))"
  by (cases c) simp_all

lemma count_status_delivered:
  assumes "map name_status ys = map call_name_status (filter (delivered ok) cs)"
  shows "count_status k ys = count (mset (map call_status (filter (delivered ok) cs))) k"
  using assms
proof (induction cs arbitrary: ys)
  case Nil
  then show ?case by simp
next
  case (Cons c cs)
  show ?case
  proof (cases "delivered ok c")
    case True
    with Cons.prems obtain y zs where ys: "ys = y # zs"
      "name_status y = call_name_status c"
      "map name_status zs = map call_name_status (filter (delivered ok) cs)"
      by auto
    from ys(2) delivered_call_name_status [OF True]
    have "field_of y ''status'' = Some (S (call_status c))"
      by (cases "call_name_status c") (simp add: name_status_def)
    with Cons.IH [OF ys(3)] ys(1) True show ?thesis by auto
  next
    case False
    with Cons.prems Cons.IH show ?thesis by simp
  qed
qed


text \<open>Decimal digits.\<close>

lemma is_digit_char_of: "(k::nat) < 10 \<Longrightarrow> is_digit (char_of (48 + k))"
  by (simp add: is_digit_def)

lemma is_digit_zero: "is_digit CHR ''0''"
  by (simp add: is_digit_def)

lemma digit_value_char_of: "(k::nat) < 10 \<Longrightarrow> (of_char (char_of (48 + k)) :: nat) - 48 = k"
  by simp

lemma dec_value_snoc: "dec_value (xs @ [c]) = 10 * dec_value xs + (of_char c - 48)"
  by (simp add: dec_value_def)

lemma digits_all_digit: "list_all is_digit (digits n)"
proof (induction n rule: digits.induct)
  case (1 n)
  show ?case
  proof (cases "n < 10")
    case True
    then show ?thesis by (subst digits.simps) (simp add: is_digit_char_of)
  next
    case False
    have "n mod 10 < 10" by simp
    then have "is_digit (char_of (48 + n mod 10))" by (rule is_digit_char_of)
    with False 1 show ?thesis by (subst digits.simps) simp
  qed
qed

lemma dec_value_digits: "dec_value (digits n) = n"
proof (induction n rule: digits.induct)
  case (1 n)
  show ?case
  proof (cases "n < 10")
    case True
    then show ?thesis by (subst digits.simps) (simp add: dec_value_def)
  next
    case False
    have m: "n mod 10 < 10" by simp
    from False 1 have "dec_value (digits (n div 10)) = n div 10" by simp
    with False show ?thesis
      by (subst digits.simps) (simp add: dec_value_snoc digit_value_char_of [OF m])
  qed
qed

lemma length_digits_pos: "0 < length (digits n)"
  by (subst digits.simps) simp

lemma length_digits_small: "n < 100 \<Longrightarrow> length (digits n) \<le> 2"
proof -
  assume n: "n < 100"
  show ?thesis
  proof (cases "n < 10")
    case True
    then show ?thesis by (subst digits.simps) simp
  next
    case False
    from n have "n div 10 < 10" by simp
    then have "digits (n div 10) = [char_of (48 + n div 10)]" by (subst digits.simps) simp
    with False show ?thesis by (subst digits.simps) simp
  qed
qed

lemma dec_value_zeros: "dec_value (replicate k CHR ''0'' @ s) = dec_value s"
proof -
  have "foldl (\<lambda>acc c. 10 * acc + (of_char c - 48)) (0::nat) (replicate k CHR ''0'') = 0"
    by (induction k) simp_all
  then show ?thesis by (simp add: dec_value_def)
qed

lemma padStart2_digits:
  "list_all is_digit (padStart2 (digits n))"
  "dec_value (padStart2 (digits n)) = n"
  "2 \<le> length (padStart2 (digits n))"
  using digits_all_digit [of n]
  by (auto simp add: padStart2_def dec_value_zeros dec_value_digits list_all_iff is_digit_zero)

lemma padStart2_digits_small:
  assumes "n < 100"
  shows "length (padStart2 (digits n)) = 2"
  using length_digits_small [OF assms] length_digits_pos [of n]
  by (simp add: padStart2_def)

text \<open>Doubles: the exponent and the rounding.\<close>

lemma bit_length_bounds:
  "0 < n \<Longrightarrow> 2 ^ (bit_length n - 1) \<le> n \<and> n < 2 ^ bit_length n"
proof (induction n rule: bit_length.induct)
  case (1 n)
  show ?case
  proof (cases "n div 2 = 0")
    case True
    with 1 have "n = 1" by (simp add: div_eq_0_iff) 
    then show ?thesis by (simp add: bit_length.simps [of "Suc 0"] bit_length.simps [of 0])
  next
    case False
    then have p: "0 < n div 2" by simp
    with 1 have ih: "2 ^ (bit_length (n div 2) - 1) \<le> n div 2" "n div 2 < 2 ^ bit_length (n div 2)"
      by simp_all
    from p have bl: "0 < bit_length (n div 2)" by (subst bit_length.simps) simp
    have e: "bit_length n = Suc (bit_length (n div 2))" using 1(2) by (subst bit_length.simps) simp
    from bl have "(2::nat) ^ bit_length (n div 2) = 2 * 2 ^ (bit_length (n div 2) - 1)"
      by (cases "bit_length (n div 2)") simp_all
    with ih show ?thesis unfolding e by simp linarith
  qed
qed

lemma pow2_expo_le:
  assumes "q \<noteq> 0"
  shows "pow2 (expo q) \<le> \<bar>q\<bar>"
proof (cases "1 \<le> \<bar>q\<bar>")
  case True
  define n where "n = nat \<lfloor>\<bar>q\<bar>\<rfloor>"
  from True have n: "0 < n" by (simp add: n_def)
  have "2 ^ (bit_length n - 1) \<le> n" using bit_length_bounds [OF n] by simp
  then have "(2::rat) ^ (bit_length n - 1) \<le> of_nat n" 
    by (metis of_nat_le_iff of_nat_numeral of_nat_power)
  also have "(of_nat n :: rat) = of_int \<lfloor>\<bar>q\<bar>\<rfloor>" using True by (simp add: n_def)
  also have "\<dots> \<le> \<bar>q\<bar>" by simp
  finally have a: "(2::rat) ^ (bit_length n - 1) \<le> \<bar>q\<bar>" .
  from n have bl: "0 < bit_length n" by (subst bit_length.simps) simp
  then have "nat (int (bit_length n) - 1) = bit_length n - 1" by simp
  with True a bl show ?thesis by (simp add: expo_def pow2_def n_def [symmetric])
next
  case False
  define m where "m = nat (\<lceil>1 / \<bar>q\<bar>\<rceil> - 1)"
  from False assms have q: "0 < \<bar>q\<bar>" "\<bar>q\<bar> < 1" by simp_all
  then have "1 < 1 / \<bar>q\<bar>" by (simp add: field_simps)
  then have c: "2 \<le> \<lceil>1 / \<bar>q\<bar>\<rceil>" by (simp add: le_ceiling_iff) 
  then have m: "0 < m" by (simp add: m_def)
  have "m < 2 ^ bit_length m" using bit_length_bounds [OF m] by simp
  then have "int m + 1 \<le> 2 ^ bit_length m" by (metis of_nat_less_iff of_nat_numeral of_nat_power zless_imp_add1_zle)
  moreover from c have "int m + 1 = \<lceil>1 / \<bar>q\<bar>\<rceil>" unfolding m_def by linarith
  ultimately have "\<lceil>1 / \<bar>q\<bar>\<rceil> \<le> 2 ^ bit_length m" by simp
  then have "1 / \<bar>q\<bar> \<le> 2 ^ bit_length m" by (simp add: ceiling_le_iff)
  with q have "1 / 2 ^ bit_length m \<le> \<bar>q\<bar>" by (simp add: field_simps)
  moreover from m have "0 < bit_length m" by (subst bit_length.simps) simp
  ultimately show ?thesis using False by (simp add: expo_def pow2_def m_def [symmetric])
qed

lemma round_half_even_bounds:
  "\<lfloor>y\<rfloor> \<le> round_half_even y" "of_int (round_half_even y) \<le> y + 1 / 2"
proof -
  show "\<lfloor>y\<rfloor> \<le> round_half_even y" by (simp add: round_half_even_def Let_def)
  have f: "of_int \<lfloor>y\<rfloor> \<le> y" by simp
  show "of_int (round_half_even y) \<le> y + 1 / 2"
  proof (cases "y - of_int \<lfloor>y\<rfloor> < 1 / 2")
    case True
    then have "round_half_even y = \<lfloor>y\<rfloor>" by (simp add: round_half_even_def Let_def)
    with f show ?thesis by linarith
  next
    case False
    then have "round_half_even y \<le> \<lfloor>y\<rfloor> + 1" by (simp add: round_half_even_def Let_def)
    then have "(of_int (round_half_even y) :: rat) \<le> of_int \<lfloor>y\<rfloor> + 1"
      by (metis of_int_1 of_int_add of_int_le_iff)
    with False show ?thesis by linarith
  qed
qed

lemma round_half_even_of_int [simp]: "round_half_even (of_int z) = z"
  by (simp add: round_half_even_def)


lemma pow2_pos: "0 < pow2 e"
  by (simp add: pow2_def)

lemma pow2_diff: "pow2 (a - b) = pow2 a / pow2 b"
proof -
  have "pow2 e = 2 powi e" for e
    by (simp add: pow2_def power_int_def field_simps)
  then show ?thesis by (simp add: power_int_diff)
qed

lemma pow2_nat: "pow2 (int k) = 2 ^ k"
  by (simp add: pow2_def)

text \<open>Math.floor(a / b) for integers below 2^53.\<close>

lemma floor_nearest_double_div:
  assumes a: "0 \<le> a" "a < 2 ^ 53" and b: "0 < b" "b < 2 ^ 53"
  shows "\<lfloor>nearest_double (of_int a / of_int b)\<rfloor> = a div b"
proof (cases "a = 0")
  case True
  then show ?thesis by (simp add: nearest_double_def)
next
  case False
  define q :: rat where "q = of_int a / of_int b"
  define k where "k = a div b"
  from False a b have q0: "0 < q" by (simp add: q_def)
  have lo: "pow2 (expo q) \<le> q" using pow2_expo_le [of q] q0 by simp
  have "q \<le> of_int a" using a b by (simp add: q_def field_simps mult_le_cancel_left1) 
  also have "\<dots> < 2 ^ 53" using a by (metis of_int_less_iff of_int_numeral of_int_power)
  finally have q53: "q < 2 ^ 53" .
  have e52: "expo q \<le> 52"
  proof (rule ccontr)
    assume "\<not> expo q \<le> 52"
    then have "53 \<le> nat (expo q)" "0 \<le> expo q" by simp_all
    then have "(2::rat) ^ 53 \<le> 2 ^ nat (expo q)" by (intro power_increasing) simp_all
    also have "\<dots> = pow2 (expo q)" using \<open>0 \<le> expo q\<close> by (simp add: pow2_def)
    finally show False using lo q53 by simp
  qed
  define j where "j = nat (52 - expo q)"
  have u: "pow2 (expo q - 52) = 1 / 2 ^ j"
  proof -
    have "expo q - 52 = 0 - int j" using e52 by (simp add: j_def)
    then show ?thesis by (simp only: pow2_diff pow2_nat) (simp add: pow2_def)
  qed
  define r where "r = round_half_even (q * 2 ^ j)"
  have nd: "nearest_double q = of_int r / 2 ^ j"
    using q0 by (simp add: nearest_double_def Let_def u r_def)
  have kq: "of_int k \<le> q" "q \<le> of_int k + 1 - 1 / of_int b"
  proof -
    have md: "a = k * b + a mod b" "0 \<le> a mod b" "a mod b < b"
      using b by (simp_all add: k_def)
    from md have "k * b \<le> a" by linarith
    then have "(of_int (k * b) :: rat) \<le> of_int a" by (simp only: of_int_le_iff)
    then show "of_int k \<le> q" using b by (simp add: q_def field_simps)
    have "(k + 1) * b = k * b + b" by (simp add: algebra_simps)
    with md have "a \<le> (k + 1) * b - 1" by linarith
    then have "(of_int a :: rat) \<le> of_int ((k + 1) * b - 1)" by (simp only: of_int_le_iff)
    then show "q \<le> of_int k + 1 - 1 / of_int b" using b by (simp add: q_def field_simps)
  qed
  have bj: "(of_int b :: rat) < 2 * 2 ^ j"
  proof -
    have "pow2 (expo q) * of_int b \<le> of_int a" using lo b by (simp add: q_def field_simps)
    also have "\<dots> < 2 ^ 53" using a by (metis of_int_less_iff of_int_numeral of_int_power)
    finally have "pow2 (expo q) * of_int b < 2 ^ 53" .
    moreover have "pow2 (expo q) = 2 ^ 52 / 2 ^ j"
    proof -
      have "expo q = 52 - int j" using e52 by (simp add: j_def)
      then show ?thesis by (simp only: pow2_diff pow2_nat) (simp add: pow2_def)
    qed
    ultimately show ?thesis by (simp add: field_simps)
  qed
  have lower: "k * 2 ^ j \<le> r"
  proof -
    have "(of_int (k * 2 ^ j) :: rat) \<le> q * 2 ^ j" using kq(1) by simp
    then have "k * 2 ^ j \<le> \<lfloor>q * 2 ^ j\<rfloor>" by (simp only: le_floor_iff)
    also have "\<dots> \<le> r" unfolding r_def by (rule round_half_even_bounds)
    finally show ?thesis .
  qed
  have upper: "r < (k + 1) * 2 ^ j"
  proof -
    have "of_int r \<le> q * 2 ^ j + 1 / 2" unfolding r_def by (rule round_half_even_bounds)
    also have "\<dots> \<le> (of_int k + 1 - 1 / of_int b) * 2 ^ j + 1 / 2" using kq(2) by simp
    also have "\<dots> < (of_int k + 1) * 2 ^ j"
    proof -
      have "1 / 2 < 2 ^ j / (of_int b :: rat)" using bj b by (simp add: field_simps)
      then show ?thesis by (simp add: algebra_simps)
    qed
    finally have "(of_int r :: rat) < of_int ((k + 1) * 2 ^ j)" by simp
    then show ?thesis by (simp only: of_int_less_iff)
  qed
  have "\<lfloor>(of_int r :: rat) / 2 ^ j\<rfloor> = r div 2 ^ j"
    by (metis floor_divide_of_int_eq of_int_numeral of_int_power)
  also have "\<dots> = k"
  proof -
    from lower upper have "r div 2 ^ j = k"
      by (intro int_div_pos_eq [where r = "r - k * 2 ^ j"]) (simp_all add: algebra_simps)
    then show ?thesis .
  qed
  finally show ?thesis by (simp add: nd q_def [symmetric] k_def)
qed

text \<open>The integer forms agree with the definitions on rationals.\<close>

lemma round_half_even_ratio:
  assumes "0 < q"
  shows "round_half_even (of_int p / of_int q) = round_ratio p q"
proof -
  have f: "\<lfloor>(of_int p :: rat) / of_int q\<rfloor> = p div q" by (rule floor_divide_of_int_eq)
  have "(of_int p :: rat) = of_int (p div q * q + p mod q)" by simp
  also have "\<dots> = of_int (p div q) * of_int q + of_int (p mod q)" by (simp only: of_int_add of_int_mult)
  finally have r: "(of_int p :: rat) / of_int q - of_int (p div q) = of_int (p mod q) / of_int q"
    using assms by (simp add: field_simps)
  have lt: "(of_int (p mod q) / of_int q < (1::rat) / 2) \<longleftrightarrow> 2 * (p mod q) < q"
  proof -
    have "(of_int (p mod q) / of_int q < (1::rat) / 2) \<longleftrightarrow>
          (of_int (2 * (p mod q)) :: rat) < of_int q"
      using assms by (simp add: field_simps)
    then show ?thesis by (simp only: of_int_less_iff)
  qed
  have gt: "((1::rat) / 2 < of_int (p mod q) / of_int q) \<longleftrightarrow> q < 2 * (p mod q)"
  proof -
    have "((1::rat) / 2 < of_int (p mod q) / of_int q) \<longleftrightarrow>
          (of_int q :: rat) < of_int (2 * (p mod q))"
      using assms by (simp add: field_simps)
    then show ?thesis by (simp only: of_int_less_iff)
  qed
  show ?thesis
    unfolding round_half_even_def round_ratio_def Let_def f r lt gt ..
qed

lemma expo_ratio:
  assumes "p \<noteq> 0" "0 < q"
  shows "expo (of_int p / of_int q) = expo_ratio p q"
proof -
  have a: "\<bar>(of_int p :: rat) / of_int q\<bar> = of_int \<bar>p\<bar> / of_int q" using assms by simp
  have c: "(1 \<le> (of_int \<bar>p\<bar> :: rat) / of_int q) \<longleftrightarrow> q \<le> \<bar>p\<bar>"
  proof -
    have "(1 \<le> (of_int \<bar>p\<bar> :: rat) / of_int q) \<longleftrightarrow> (of_int q :: rat) \<le> of_int \<bar>p\<bar>"
      using assms by (simp add: field_simps)
    then show ?thesis by (simp only: of_int_le_iff)
  qed
  have f: "\<lfloor>(of_int \<bar>p\<bar> :: rat) / of_int q\<rfloor> = \<bar>p\<bar> div q" by (rule floor_divide_of_int_eq)
  have "1 / ((of_int \<bar>p\<bar> :: rat) / of_int q) = of_int q / of_int \<bar>p\<bar>" by simp
  moreover have "\<lceil>(of_int q :: rat) / of_int \<bar>p\<bar>\<rceil> = - (- q div \<bar>p\<bar>)"
  proof -
    have "- ((of_int q :: rat) / of_int \<bar>p\<bar>) = of_int (- q) / of_int \<bar>p\<bar>" by simp
    then show ?thesis unfolding ceiling_def by (simp only: floor_divide_of_int_eq)
  qed
  ultimately have g: "\<lceil>1 / ((of_int \<bar>p\<bar> :: rat) / of_int q)\<rceil> = - (- q div \<bar>p\<bar>)" by simp
  show ?thesis unfolding expo_def expo_ratio_def a c f g ..
qed

lemma nearest_double_ratio:
  assumes "p \<noteq> 0" "0 < q"
  shows "nearest_double (of_int p / of_int q) =
           (if expo_ratio p q \<le> 52
            then of_int (round_ratio (p * 2 ^ nat (52 - expo_ratio p q)) q) /
                   2 ^ nat (52 - expo_ratio p q)
            else of_int (round_ratio p (q * 2 ^ nat (expo_ratio p q - 52))) *
                   2 ^ nat (expo_ratio p q - 52))"
proof -
  define e where "e = expo_ratio p q"
  have e: "expo (of_int p / of_int q) = e" unfolding e_def using assms by (rule expo_ratio)
  from assms have nz: "(of_int p :: rat) / of_int q \<noteq> 0" by simp
  show ?thesis
  proof (cases "e \<le> 52")
    case True
    define j where "j = nat (52 - e)"
    have "e - 52 = 0 - int j" using True by (simp add: j_def)
    then have u: "pow2 (e - 52) = 1 / 2 ^ j" by (simp only: pow2_diff pow2_nat) (simp add: pow2_def)
    have "(of_int p :: rat) / of_int q / (1 / 2 ^ j) = of_int (p * 2 ^ j) / of_int q" by simp
    then have "round_half_even ((of_int p :: rat) / of_int q / (1 / 2 ^ j)) = round_ratio (p * 2 ^ j) q"
      using assms(2) by (simp only: round_half_even_ratio)
    then show ?thesis
      using nz True unfolding nearest_double_def e Let_def u e_def [symmetric] j_def [symmetric]
      by simp
  next
    case False
    define j where "j = nat (e - 52)"
    have "e - 52 = int j" using False by (simp add: j_def)
    then have u: "pow2 (e - 52) = 2 ^ j" by (simp only: pow2_nat)
    have q: "0 < q * 2 ^ j" using assms(2) by simp
    have "(of_int p :: rat) / of_int q / 2 ^ j = of_int p / of_int (q * 2 ^ j)" by simp
    then have "round_half_even ((of_int p :: rat) / of_int q / 2 ^ j) = round_ratio p (q * 2 ^ j)"
      using q by (simp only: round_half_even_ratio)
    then show ?thesis
      using nz False unfolding nearest_double_def e Let_def u e_def [symmetric] j_def [symmetric]
      by simp
  qed
qed

lemma floor_nearest_double_ratio:
  assumes "0 < q"
  shows "\<lfloor>nearest_double (of_int p / of_int q)\<rfloor> = floor_double p q"
proof (cases "p = 0")
  case True
  then show ?thesis by (simp add: nearest_double_def floor_double_def)
next
  case False
  have a: "\<lfloor>(of_int r :: rat) / 2 ^ j\<rfloor> = r div 2 ^ j" for r j
    by (metis floor_divide_of_int_eq of_int_numeral of_int_power)
  have b: "\<lfloor>(of_int r :: rat) * 2 ^ j\<rfloor> = r * 2 ^ j" for r j
    by (metis floor_of_int of_int_mult of_int_numeral of_int_power)
  show ?thesis
    using False by (simp add: nearest_double_ratio [OF False assms] floor_double_def Let_def a b)
qed

lemma nearest_double_of_int: "nearest_double (of_int v) = of_int (floor_double v 1)"
proof (cases "v = 0")
  case True
  then show ?thesis by (simp add: nearest_double_def floor_double_def)
next
  case False
  have r: "round_ratio p 1 = p" for p by (simp add: round_ratio_def)
  have "nearest_double (of_int v / of_int 1) = of_int (floor_double v 1)"
    unfolding nearest_double_ratio [OF False zero_less_one]
    using False by (simp add: floor_double_def Let_def r round_ratio_def)
  then show ?thesis by simp
qed

text \<open>Rules to compute with numerals.\<close>

lemma bit_length_numeral [simp]:
  "bit_length 0 = 0"
  "bit_length 1 = 1"
  "bit_length (Suc 0) = 1"
  "bit_length (numeral Num.One) = 1"
  "bit_length (numeral (Num.Bit0 n)) = Suc (bit_length (numeral n))"
  "bit_length (numeral (Num.Bit1 n)) = Suc (bit_length (numeral n))"
proof -
  show "bit_length 0 = 0" by (subst bit_length.simps) simp
  then show a: "bit_length 1 = 1" by (subst bit_length.simps) simp
  then show "bit_length (Suc 0) = 1" by simp
  from a show "bit_length (numeral Num.One) = 1" by simp
  show "bit_length (numeral (Num.Bit0 n)) = Suc (bit_length (numeral n))"
    by (subst bit_length.simps) simp
  show "bit_length (numeral (Num.Bit1 n)) = Suc (bit_length (numeral n))"
    by (subst bit_length.simps) simp
qed

lemma digit_chars:
  "char_of (48::nat) = CHR ''0''" "char_of (49::nat) = CHR ''1''" "char_of (50::nat) = CHR ''2''"
  "char_of (51::nat) = CHR ''3''" "char_of (52::nat) = CHR ''4''" "char_of (53::nat) = CHR ''5''"
  "char_of (54::nat) = CHR ''6''" "char_of (55::nat) = CHR ''7''" "char_of (56::nat) = CHR ''8''"
  "char_of (57::nat) = CHR ''9''"
  by code_simp+

lemma digits_numeral:
  "digits 0 = ''0''"
  "digits 1 = ''1''"
  "digits (Suc 0) = ''1''"
  "numeral k < (10::nat) \<Longrightarrow> digits (numeral k) = [char_of (48 + (numeral k :: nat))]"
  "(10::nat) \<le> numeral k \<Longrightarrow>
     digits (numeral k) = digits (numeral k div 10) @ [char_of (48 + (numeral k :: nat) mod 10)]"
  by (subst digits.simps, simp add: digit_chars)+

lemma formatDuration_compute:
  "formatDuration ms =
     (let x = floor_double ms 1 in
      if 2 ^ 1024 \<le> \<bar>x\<bar>
      then (if x < 0 then ''-Infinity'' else ''Infinity'') @ '':NaN:NaN''
      else
        let totalSeconds = floor_double x 1000;
            hours = padStart2 (String_Number (floor_double totalSeconds 3600));
            minutes = padStart2 (String_Number (floor_double (totalSeconds smod 3600) 60));
            seconds = padStart2 (String_Number (totalSeconds smod 60))
        in hours @ '':'' @ minutes @ '':'' @ seconds)"
proof -
  have a: "\<lfloor>nearest_double (of_int p / 1000)\<rfloor> = floor_double p 1000" for p
    using floor_nearest_double_ratio [of 1000 p] by simp
  have b: "\<lfloor>nearest_double (of_int p / 3600)\<rfloor> = floor_double p 3600" for p
    using floor_nearest_double_ratio [of 3600 p] by simp
  have c: "\<lfloor>nearest_double (of_int p / 60)\<rfloor> = floor_double p 60" for p
    using floor_nearest_double_ratio [of 60 p] by simp
  have d: "((2::rat) ^ 1024 \<le> \<bar>of_int v\<bar>) \<longleftrightarrow> (2::int) ^ 1024 \<le> \<bar>v\<bar>" for v
    by (metis of_int_abs of_int_le_iff of_int_numeral of_int_power)
  have e: "((of_int v :: rat) < 0) \<longleftrightarrow> v < 0" for v by simp
  show ?thesis
    unfolding formatDuration_def nearest_double_of_int Let_def a b c d e ..
qed


lemmas double_eval = floor_double_def expo_ratio_def round_ratio_def signed_modulo_int_def
  String_Number_def padStart2_def digits_numeral digit_chars


lemma pow10_nat: "0 \<le> j \<Longrightarrow> pow10 j = of_int (10 ^ nat j)"
  by (simp add: pow10_def)

lemma candidates_compute:
  assumes "int k \<le> m"
  shows "candidates n k m =
           filter (\<lambda>(s, m'). 10 ^ (k - 1) \<le> s \<and> s < 10 ^ k \<and>
                               floor_double (s * 10 ^ nat (m - int k)) 1 = n)
             [(n div 10 ^ nat (m - int k), m), (n div 10 ^ nat (m - int k) + 1, m)]"
proof -
  define P :: int where "P = 10 ^ nat (m - int k)"
  have p: "pow10 (m - int k) = of_int P" using assms by (simp add: pow10_nat P_def)
  have f: "\<lfloor>(of_int n :: rat) / of_int P\<rfloor> = n div P" by (rule floor_divide_of_int_eq)
  have e: "(nearest_double (of_int s * of_int P) = of_int n) \<longleftrightarrow> floor_double (s * P) 1 = n" for s
  proof -
    have "nearest_double (of_int s * of_int P) = of_int (floor_double (s * P) 1)"
      using nearest_double_of_int [of "s * P"] by simp
    then show ?thesis by (simp only: of_int_eq_iff)
  qed
  show ?thesis
    unfolding candidates_def p f e Let_def P_def [symmetric] ..
qed

lemma nearer_compute:
  assumes "int k \<le> snd a" "int k \<le> snd b"
  shows "nearer n k a b =
           (if \<bar>fst a * 10 ^ nat (snd a - int k) - n\<bar> < \<bar>fst b * 10 ^ nat (snd b - int k) - n\<bar>
            then a
            else if \<bar>fst b * 10 ^ nat (snd b - int k) - n\<bar> < \<bar>fst a * 10 ^ nat (snd a - int k) - n\<bar>
            then b
            else if even (fst a) then a else b)"
proof -
  have d: "\<bar>of_int s * pow10 (m - int k) - (of_int n :: rat)\<bar> =
           of_int \<bar>s * 10 ^ nat (m - int k) - n\<bar>" if "int k \<le> m" for s m
    using that by (simp add: pow10_nat)
  show ?thesis
    unfolding nearer_def Let_def d [OF assms(1)] d [OF assms(2)] of_int_less_iff ..
qed

lemma upto_18: "[1..<18] = [1, 2, 3, 4, 5, 6, 7, 8, 9, 10, 11, 12, 13, 14, 15, 16, 17]"
  by code_simp

text \<open>
  Below \<open>2^53\<close> every integer is a double and the quotients round down as \<open>div\<close> does.
\<close>

lemma hms_sum: "(T::nat) div 3600 * 3600 + T mod 3600 div 60 * 60 + T mod 60 = T"
proof -
  have "T mod 3600 mod 60 = T mod 60" by (simp add: mod_mod_cancel)
  then have "T mod 3600 div 60 * 60 + T mod 60 = T mod 3600"
    by (metis div_mult_mod_eq)
  then show ?thesis by (metis (no_types) add.assoc div_mult_mod_eq)
qed


lemma nearest_double_exact:
  assumes "0 \<le> n" "n < 2 ^ 53"
  shows "nearest_double (of_int n) = of_int n"
proof -
  have "\<lfloor>nearest_double (of_int n / of_int 1)\<rfloor> = n div 1"
    using assms by (intro floor_nearest_double_div) simp_all
  then have "floor_double n 1 = n"
    by (simp only: floor_nearest_double_ratio [OF zero_less_one] div_by_1)
  then show ?thesis by (simp only: nearest_double_of_int)
qed

lemma String_Number_nonneg: "0 \<le> n \<Longrightarrow> n < 2 ^ 53 \<Longrightarrow> String_Number n = digits (nat n)"
  by (simp add: String_Number_def)

lemma formatDuration_safe:
  assumes "0 \<le> ms" "ms < 2 ^ 53"
  shows "formatDuration ms =
           padStart2 (digits (nat (ms div 1000) div 3600)) @ '':'' @
           padStart2 (digits (nat (ms div 1000) mod 3600 div 60)) @ '':'' @
           padStart2 (digits (nat (ms div 1000) mod 60))"
proof -
  define T where "T = ms div 1000"
  from assms have T: "0 \<le> T" "T < 2 ^ 53" by (simp_all add: T_def)
  have x: "nearest_double (of_int ms) = of_int ms" using assms by (rule nearest_double_exact)
  have fin: "\<not> (2::rat) ^ 1024 \<le> \<bar>of_int ms\<bar>"
  proof -
    have "(of_int ms :: rat) < of_int (2 ^ 53)" using assms by (simp only: of_int_less_iff)
    also have "\<dots> \<le> 2 ^ 1024" by simp
    finally show ?thesis using assms by simp
  qed
  have "\<lfloor>nearest_double (of_int ms / of_int 1000)\<rfloor> = ms div 1000"
    using assms by (intro floor_nearest_double_div) simp_all
  then have t: "\<lfloor>nearest_double (of_int ms / 1000)\<rfloor> = T" by (simp add: T_def)
  have "\<lfloor>nearest_double (of_int T / of_int 3600)\<rfloor> = T div 3600"
    using T by (intro floor_nearest_double_div) simp_all
  then have h: "\<lfloor>nearest_double (of_int T / 3600)\<rfloor> = T div 3600" by simp
  from T have s1: "T smod 3600 = T mod 3600" and s2: "T smod 60 = T mod 60"
    by (simp_all add: signed_modulo_int_def sgn_if)
  have "T mod 3600 < 3600" by simp
  then have m0: "T mod 3600 < 2 ^ 53" by simp
  have "\<lfloor>nearest_double (of_int (T mod 3600) / of_int 60)\<rfloor> = T mod 3600 div 60"
    using m0 by (intro floor_nearest_double_div) simp_all
  then have m: "\<lfloor>nearest_double (of_int (T mod 3600) / 60)\<rfloor> = T mod 3600 div 60" by simp
  have hb: "T div 3600 < 2 ^ 53"
  proof -
    have "T = T div 3600 * 3600 + T mod 3600" "0 \<le> T mod 3600" "0 \<le> T div 3600"
      using T by (simp_all add: pos_imp_zdiv_nonneg_iff)
    then have "T div 3600 \<le> T" by linarith
    with T show ?thesis by simp
  qed
  from T hb have hs: "String_Number (T div 3600) = digits (nat T div 3600)"
    by (simp add: String_Number_nonneg nat_div_distrib pos_imp_zdiv_nonneg_iff)
  have mb: "T mod 3600 div 60 < 2 ^ 53"
  proof -
    have "T mod 3600 div 60 < 3600" by simp
    then show ?thesis by simp
  qed
  from T mb have ms: "String_Number (T mod 3600 div 60) = digits (nat T mod 3600 div 60)"
    by (simp add: String_Number_nonneg nat_div_distrib nat_mod_distrib pos_imp_zdiv_nonneg_iff)
  have "T mod 60 < 60" by simp
  then have "T mod 60 < 2 ^ 53" by simp
  with T have ss: "String_Number (T mod 60) = digits (nat T mod 60)"
    by (simp add: String_Number_nonneg nat_mod_distrib)
  show ?thesis
    unfolding formatDuration_def Let_def x if_not_P [OF fin] t h s1 s2 m hs ms ss
      T_def [symmetric] ..
qed

lemma formatDuration_shape:
  assumes "0 \<le> ms" "ms < 2 ^ 53"
  shows "\<exists>hh mm ss.
           formatDuration ms = hh @ '':'' @ mm @ '':'' @ ss \<and>
           list_all is_digit hh \<and> list_all is_digit mm \<and> list_all is_digit ss \<and>
           2 \<le> length hh \<and> length mm = 2 \<and> length ss = 2 \<and>
           dec_value mm < 60 \<and> dec_value ss < 60 \<and>
           int (dec_value hh * 3600 + dec_value mm * 60 + dec_value ss) = ms div 1000"
proof -
  define T where "T = nat (ms div 1000)"
  have m: "T mod 3600 div 60 < 60" by simp
  have s: "T mod 60 < 60" by simp
  from m have m2: "length (padStart2 (digits (T mod 3600 div 60))) = 2"
    by (intro padStart2_digits_small) simp
  from s have s2: "length (padStart2 (digits (T mod 60))) = 2"
    by (intro padStart2_digits_small) simp
  from assms have "int T = ms div 1000" by (simp add: T_def)
  then have sum: "int (T div 3600 * 3600 + T mod 3600 div 60 * 60 + T mod 60) = ms div 1000"
    by (simp only: hms_sum)
  show ?thesis
    apply (rule exI [of _ "padStart2 (digits (T div 3600))"])
    apply (rule exI [of _ "padStart2 (digits (T mod 3600 div 60))"])
    apply (rule exI [of _ "padStart2 (digits (T mod 60))"])
    using formatDuration_safe [OF assms] m s m2 s2 sum
    by (simp only: padStart2_digits T_def [symmetric] simp_thms)
qed

lemma formatDuration_minus_1000: "formatDuration (- 1000) = ''-1:-1:-1''"
  apply (subst formatDuration_compute)
  apply (simp add: floor_double_def expo_ratio_def round_ratio_def signed_modulo_int_def)
  apply (simp add: String_Number_def padStart2_def digits_numeral digit_chars)
  done

lemma formatDuration_2_62: "formatDuration (2 ^ 62) = ''1281023894007:36:28''"
  apply (subst formatDuration_compute)
  apply (simp add: floor_double_def expo_ratio_def round_ratio_def signed_modulo_int_def)
  apply (simp add: String_Number_def padStart2_def digits_numeral digit_chars)
  done

lemma String_large_hours: "String_large 2777777777777777311744 = ''2.7777777777777773e+21''"
  apply (simp only: String_large_def upto_18)
  apply (simp add: candidates_compute nearer_compute double_eval)
  done

lemma formatDuration_10_28: "formatDuration (10 ^ 28) = ''2.7777777777777773e+21:46:56''"
  apply (subst formatDuration_compute)
  apply (simp add: floor_double_def expo_ratio_def round_ratio_def signed_modulo_int_def)
  apply (simp add: String_Number_def String_large_hours padStart2_def digits_numeral digit_chars)
  done


text \<open>A run of calls followed by afterAllTests.\<close>

lemma count_mset_pos: "(0 < count (mset xs) x) \<longleftrightarrow> x \<in> set xs"
  by (simp add: count_greater_zero_iff)

lemma reports_v1_payload:
  assumes "requests s' = rs @
             [Patch url
                [(''status'', S (if F = 0 then ''passed'' else ''failed'')),
                 (''end_time'', t1), (''duration'', t2),
                 (''total_tests'', N (int T)), (''passed'', N (int P)),
                 (''failed'', N (int F)), (''aborted'', N (int A))]]"
  shows "is_Patch (last (requests s'))"
    and "reports (payload_of (last (requests s')))
           (if 0 < F then ''failed'' else ''passed'') T P F A"
  by (simp_all add: assms reports_def field_of_def)

lemma reports_v2_payload:
  assumes "requests s' = rs @
             [Patch url
                [(''status'', S (if F > 0 then ''failed'' else ''passed'')),
                 (''end_time'', t1),
                 (''total_tests'', N (int T)), (''passed'', N (int P)),
                 (''failed'', N (int F)), (''aborted'', N (int A))]]"
  shows "is_Patch (last (requests s'))"
    and "reports (payload_of (last (requests s')))
           (if 0 < F then ''failed'' else ''passed'') T P F A"
  by (simp_all add: assms reports_def field_of_def)

lemma run_then_finish_v1:
  assumes "isJenkins s1" "resolvable s1" "testCasesFile s1 = Some (Json_array [])"
    and "\<forall>c\<in>set cs. \<not> is_BeforeAll c \<and> record_fs_ok c" "\<not> fails ef ReadJson"
  shows "\<exists>ys. testCasesFile (snd (run step_v1 cs s1)) = Some (Json_array ys) \<and>
           map name_status ys = map call_name_status (filter (delivered succeeded_v1) cs) \<and>
           is_Patch (last (requests (snd (afterAllTests_v1 ef (snd (run step_v1 cs s1)))))) \<and>
           reports (payload_of (last (requests (snd (afterAllTests_v1 ef (snd (run step_v1 cs s1)))))))
             (if ''failed'' \<in> set (map call_status (filter (delivered succeeded_v1) cs))
              then ''failed'' else ''passed'')
             (length ys)
             (count (mset (map call_status (filter (delivered succeeded_v1) cs))) ''passed'')
             (count (mset (map call_status (filter (delivered succeeded_v1) cs))) ''failed'')
             (count (mset (map call_status (filter (delivered succeeded_v1) cs))) ''skipped'')"
proof -
  let ?s2 = "snd (run step_v1 cs s1)"
  let ?sts = "map call_status (filter (delivered succeeded_v1) cs)"
  have "isJenkins ?s2 \<and> resolvable ?s2 \<and>
         (\<exists>ys. testCasesFile ?s2 = Some (Json_array ([] @ ys)) \<and>
               map name_status ys = map call_name_status (filter (delivered succeeded_v1) cs))"
    using assms(1,2,3,4) by (intro run_file_generic step_v1_file)
  then obtain ys where s2: "isJenkins ?s2" "resolvable ?s2"
      "testCasesFile ?s2 = Some (Json_array ([] @ ys))"
      "map name_status ys = map call_name_status (filter (delivered succeeded_v1) cs)"
    by blast
  from s2(3) have s3: "testCasesFile ?s2 = Some (Json_array ys)"
    by (simp only: append_Nil)
  have c: "count_status k ys = count (mset ?sts) k" for k
    by (rule count_status_delivered [OF s2(4)])
  note req = afterAllTests_v1_requests [OF s2(1,2) assms(5) s3, unfolded c]
  note r = reports_v1_payload [OF req, unfolded count_mset_pos]
  show ?thesis
    by (rule exI [of _ ys]) (intro conjI s3 s2(4) r)
qed

lemma run_then_finish_v2:
  assumes "isJenkins s1" "resolvable s1" "testCasesFile s1 = Some (Json_array [])"
    and "\<forall>c\<in>set cs. \<not> is_BeforeAll c \<and> record_fs_ok c" "\<not> fails ef ReadJson"
  shows "\<exists>ys. testCasesFile (snd (run step_v2 cs s1)) = Some (Json_array ys) \<and>
           map name_status ys = map call_name_status (filter (delivered succeeded_v2) cs) \<and>
           is_Patch (last (requests (snd (afterAllTests_v2 ef (snd (run step_v2 cs s1)))))) \<and>
           reports (payload_of (last (requests (snd (afterAllTests_v2 ef (snd (run step_v2 cs s1)))))))
             (if ''failed'' \<in> set (map call_status (filter (delivered succeeded_v2) cs))
              then ''failed'' else ''passed'')
             (length ys)
             (count (mset (map call_status (filter (delivered succeeded_v2) cs))) ''passed'')
             (count (mset (map call_status (filter (delivered succeeded_v2) cs))) ''failed'')
             (count (mset (map call_status (filter (delivered succeeded_v2) cs))) ''skipped'')"
proof -
  let ?s2 = "snd (run step_v2 cs s1)"
  let ?sts = "map call_status (filter (delivered succeeded_v2) cs)"
  have "isJenkins ?s2 \<and> resolvable ?s2 \<and>
         (\<exists>ys. testCasesFile ?s2 = Some (Json_array ([] @ ys)) \<and>
               map name_status ys = map call_name_status (filter (delivered succeeded_v2) cs))"
    using assms(1,2,3,4) by (intro run_file_generic step_v2_file)
  then obtain ys where s2: "isJenkins ?s2" "resolvable ?s2"
      "testCasesFile ?s2 = Some (Json_array ([] @ ys))"
      "map name_status ys = map call_name_status (filter (delivered succeeded_v2) cs)"
    by blast
  from s2(3) have s3: "testCasesFile ?s2 = Some (Json_array ys)"
    by (simp only: append_Nil)
  have c: "count_status k ys = count (mset ?sts) k" for k
    by (rule count_status_delivered [OF s2(4)])
  note req = afterAllTests_v2_requests [OF s2(1,2) assms(5) s3, unfolded c]
  note r = reports_v2_payload [OF req, unfolded count_mset_pos]
  show ?thesis
    by (rule exI [of _ ys]) (intro conjI s3 s2(4) r)
qed

lemma run_start_finish:
  "snd (run step (b # cs @ [a]) s) = snd (step a (snd (run step cs (snd (step b s)))))"
  by (simp add: run_Cons run_append del: run.simps(2))


lemma beforeAllTests_v1_resolvable:
  assumes "isJenkins s" "net e = Resolved code d" "200 \<le> code" "code < 300"
    and "get_prop d ''run_id'' = Inr rid" "truthy rid"
  shows "resolvable (snd (beforeAllTests_v1 e s))"
  using assms
  by (simp add: beforeAllTests_v1_def Let_def resolvable_def getPipelineRunId_def)

lemma beforeAllTests_v2_resolvable:
  assumes "isJenkins s" "fs_ok e" "net e = Resolved code d"
    and "truthy (opt_prop (opt_prop d ''pipeline_run'') ''run_id'')"
  shows "resolvable (snd (beforeAllTests_v2 e s))"
  using assms
  by (simp add: beforeAllTests_v2_def clearTestCasesFile_v2_ok Let_def resolvable_def
        getPipelineRunId_def)


text \<open>Which calls can end in an exception.\<close>

lemma beforeAllTests_v1_returns: "\<exists>v. fst (beforeAllTests_v1 e s) = Returned v"
proof (cases "net e")
  case (Rejected r)
  then show ?thesis by (simp add: beforeAllTests_v1_def Let_def)
next
  case (Resolved code d)
  then show ?thesis
    by (cases "get_prop d ''run_id''") (simp_all add: beforeAllTests_v1_def Let_def)
qed

lemma afterEachTest_v1_returns: "\<exists>v. fst (afterEachTest_v1 e t st m s) = Returned v"
proof (cases "net e")
  case (Rejected r)
  then show ?thesis by (simp add: afterEachTest_v1_def case_prod_beta Let_def)
next
  case (Resolved code d)
  then show ?thesis
    by (cases "get_prop d ''test_id''")
       (simp_all add: afterEachTest_v1_def case_prod_beta Let_def)
qed

lemma afterAllTests_v1_returns: "\<exists>v. fst (afterAllTests_v1 e s) = Returned v"
  by (cases "net e") (simp_all add: afterAllTests_v1_def case_prod_beta Let_def)

lemma afterEachTest_v2_returns: "\<exists>v. fst (afterEachTest_v2 e t st f s) = Returned v"
  by (cases "net e")
     (simp_all add: afterEachTest_v2_def case_prod_beta Let_def split: sum.splits)

lemma beforeAllTests_v2_throws:
  assumes "fst (beforeAllTests_v2 e s) = Threw x"
  shows "isJenkins s \<and> (fails e EnsureDir \<or> fails e WriteJson)"
proof (rule ccontr)
  assume "\<not> (isJenkins s \<and> (fails e EnsureDir \<or> fails e WriteJson))"
  then consider "\<not> isJenkins s" | "isJenkins s" "\<not> fails e EnsureDir" "\<not> fails e WriteJson"
    by blast
  then show False
  proof cases
    case 1
    with assms show False by (simp add: beforeAllTests_v2_def)
  next
    case 2
    then have "clearTestCasesFile_v2 e (s\<lparr>startTime := Some (clock e 0)\<rparr>) =
                 Inr (s\<lparr>startTime := Some (clock e 0), testCasesFile := Some (Json_array [])\<rparr>)"
      by (simp add: clearTestCasesFile_v2_def ensureDirSync_def writeJsonSync_def)
    with assms 2(1) show False
      by (cases "net e") (simp_all add: beforeAllTests_v2_def Let_def split: if_splits)
  qed
qed

section \<open>Properties\<close>

subsection \<open>C1\<close>

text \<open>
  C1, as the code has it. After \<open>beforeAllTests\<close> has cleared the file and a run
  identifier is resolvable, let any calls of \<open>markTestStart\<close>, \<open>afterEachTest\<close> and
  \<open>afterAllTests\<close> follow, with any outcomes of their requests and with file operations
  that succeed, and then \<open>afterAllTests\<close>. The persisted records are those of the calls
  of \<open>afterEachTest\<close> whose request succeeded: in the first variant it was answered with
  a status from 200 to 299 and a body that is neither \<open>null\<close> nor \<open>undefined\<close>, in the
  second variant it resolved. The request of the final \<open>afterAllTests\<close> is the PATCH
  issued last, and it reports: as total the number of persisted records; as passed,
  failed and aborted the multiplicities of \<open>'passed'\<close>, \<open>'failed'\<close> and \<open>'skipped'\<close> in
  the multiset of the statuses of those calls, so a call whose request failed is not
  counted; and as overall status \<open>'failed'\<close> if one of those calls has the status
  \<open>'failed'\<close>, \<open>'passed'\<close> otherwise. With no call in between it reports four zeros and
  \<open>'passed'\<close>.
\<close>

theorem finish_reports_recorded_statuses:
  assumes "isJenkins s" "fs_ok e0" "\<not> fails ef ReadJson"
  shows "(resolvable (snd (beforeAllTests_v1 e0 s)) \<and>
          (\<forall>c\<in>set cs. \<not> is_BeforeAll c \<and> record_fs_ok c) \<longrightarrow>
            map name_status (persisted (snd (run step_v1 (BeforeAll e0 # cs) s))) =
              map call_name_status (filter (delivered succeeded_v1) cs) \<and>
            is_Patch (last (requests (snd (run step_v1 (BeforeAll e0 # cs @ [AfterAll ef]) s)))) \<and>
            reports
              (payload_of (last (requests (snd (run step_v1 (BeforeAll e0 # cs @ [AfterAll ef]) s)))))
              (if ''failed'' \<in> set (map call_status (filter (delivered succeeded_v1) cs))
               then ''failed'' else ''passed'')
              (length (persisted (snd (run step_v1 (BeforeAll e0 # cs) s))))
              (count (mset (map call_status (filter (delivered succeeded_v1) cs))) ''passed'')
              (count (mset (map call_status (filter (delivered succeeded_v1) cs))) ''failed'')
              (count (mset (map call_status (filter (delivered succeeded_v1) cs))) ''skipped'')) \<and>
         (resolvable (snd (beforeAllTests_v1 e0 s)) \<longrightarrow>
            reports
              (payload_of (last (requests (snd (run step_v1 [BeforeAll e0, AfterAll ef] s)))))
              ''passed'' 0 0 0 0) \<and>
         (resolvable (snd (beforeAllTests_v2 e0 s)) \<and>
          (\<forall>c\<in>set ds. \<not> is_BeforeAll c \<and> record_fs_ok c) \<longrightarrow>
            map name_status (persisted (snd (run step_v2 (BeforeAll e0 # ds) s))) =
              map call_name_status (filter (delivered succeeded_v2) ds) \<and>
            is_Patch (last (requests (snd (run step_v2 (BeforeAll e0 # ds @ [AfterAll ef]) s)))) \<and>
            reports
              (payload_of (last (requests (snd (run step_v2 (BeforeAll e0 # ds @ [AfterAll ef]) s)))))
              (if ''failed'' \<in> set (map call_status (filter (delivered succeeded_v2) ds))
               then ''failed'' else ''passed'')
              (length (persisted (snd (run step_v2 (BeforeAll e0 # ds) s))))
              (count (mset (map call_status (filter (delivered succeeded_v2) ds))) ''passed'')
              (count (mset (map call_status (filter (delivered succeeded_v2) ds))) ''failed'')
              (count (mset (map call_status (filter (delivered succeeded_v2) ds))) ''skipped'')) \<and>
         (resolvable (snd (beforeAllTests_v2 e0 s)) \<longrightarrow>
            reports
              (payload_of (last (requests (snd (run step_v2 [BeforeAll e0, AfterAll ef] s)))))
              ''passed'' 0 0 0 0)"
proof -
  have v1: "map name_status (persisted (snd (run step_v1 (BeforeAll e0 # cs) s))) =
              map call_name_status (filter (delivered succeeded_v1) cs) \<and>
            is_Patch (last (requests (snd (run step_v1 (BeforeAll e0 # cs @ [AfterAll ef]) s)))) \<and>
            reports
              (payload_of (last (requests (snd (run step_v1 (BeforeAll e0 # cs @ [AfterAll ef]) s)))))
              (if ''failed'' \<in> set (map call_status (filter (delivered succeeded_v1) cs))
               then ''failed'' else ''passed'')
              (length (persisted (snd (run step_v1 (BeforeAll e0 # cs) s))))
              (count (mset (map call_status (filter (delivered succeeded_v1) cs))) ''passed'')
              (count (mset (map call_status (filter (delivered succeeded_v1) cs))) ''failed'')
              (count (mset (map call_status (filter (delivered succeeded_v1) cs))) ''skipped'')"
    if r: "resolvable (snd (beforeAllTests_v1 e0 s))"
      and c: "\<forall>c\<in>set cs. \<not> is_BeforeAll c \<and> record_fs_ok c" for cs
  proof -
    let ?s1 = "snd (beforeAllTests_v1 e0 s)"
    have i: "isJenkins ?s1" by (simp add: beforeAllTests_v1_keeps assms(1))
    have f: "testCasesFile ?s1 = Some (Json_array [])"
      by (rule beforeAllTests_v1_cleared [OF assms(1,2)])
    from run_then_finish_v1 [OF i r f c assms(3)]
    obtain ys where ys: "testCasesFile (snd (run step_v1 cs ?s1)) = Some (Json_array ys)"
      "map name_status ys = map call_name_status (filter (delivered succeeded_v1) cs)"
      "is_Patch (last (requests (snd (afterAllTests_v1 ef (snd (run step_v1 cs ?s1))))))"
      "reports (payload_of (last (requests (snd (afterAllTests_v1 ef (snd (run step_v1 cs ?s1)))))))
             (if ''failed'' \<in> set (map call_status (filter (delivered succeeded_v1) cs))
              then ''failed'' else ''passed'')
             (length ys)
             (count (mset (map call_status (filter (delivered succeeded_v1) cs))) ''passed'')
             (count (mset (map call_status (filter (delivered succeeded_v1) cs))) ''failed'')
             (count (mset (map call_status (filter (delivered succeeded_v1) cs))) ''skipped'')"
      by blast
    have p: "persisted (snd (run step_v1 (BeforeAll e0 # cs) s)) = ys"
      by (simp only: run_Cons snd_conv step_v1.simps persisted_def ys(1) option.case
            file_content.case)
    have q: "snd (run step_v1 (BeforeAll e0 # cs @ [AfterAll ef]) s) =
             snd (afterAllTests_v1 ef (snd (run step_v1 cs ?s1)))"
      by (simp only: run_start_finish step_v1.simps)
    show ?thesis
      unfolding p q using ys(2,3,4) by (intro conjI)
  qed
  have v2: "map name_status (persisted (snd (run step_v2 (BeforeAll e0 # ds) s))) =
              map call_name_status (filter (delivered succeeded_v2) ds) \<and>
            is_Patch (last (requests (snd (run step_v2 (BeforeAll e0 # ds @ [AfterAll ef]) s)))) \<and>
            reports
              (payload_of (last (requests (snd (run step_v2 (BeforeAll e0 # ds @ [AfterAll ef]) s)))))
              (if ''failed'' \<in> set (map call_status (filter (delivered succeeded_v2) ds))
               then ''failed'' else ''passed'')
              (length (persisted (snd (run step_v2 (BeforeAll e0 # ds) s))))
              (count (mset (map call_status (filter (delivered succeeded_v2) ds))) ''passed'')
              (count (mset (map call_status (filter (delivered succeeded_v2) ds))) ''failed'')
              (count (mset (map call_status (filter (delivered succeeded_v2) ds))) ''skipped'')"
    if r: "resolvable (snd (beforeAllTests_v2 e0 s))"
      and c: "\<forall>c\<in>set ds. \<not> is_BeforeAll c \<and> record_fs_ok c" for ds
  proof -
    let ?s1 = "snd (beforeAllTests_v2 e0 s)"
    have i: "isJenkins ?s1" by (simp add: beforeAllTests_v2_keeps assms(1))
    have f: "testCasesFile ?s1 = Some (Json_array [])"
      by (rule beforeAllTests_v2_cleared [OF assms(1,2)])
    from run_then_finish_v2 [OF i r f c assms(3)]
    obtain ys where ys: "testCasesFile (snd (run step_v2 ds ?s1)) = Some (Json_array ys)"
      "map name_status ys = map call_name_status (filter (delivered succeeded_v2) ds)"
      "is_Patch (last (requests (snd (afterAllTests_v2 ef (snd (run step_v2 ds ?s1))))))"
      "reports (payload_of (last (requests (snd (afterAllTests_v2 ef (snd (run step_v2 ds ?s1)))))))
             (if ''failed'' \<in> set (map call_status (filter (delivered succeeded_v2) ds))
              then ''failed'' else ''passed'')
             (length ys)
             (count (mset (map call_status (filter (delivered succeeded_v2) ds))) ''passed'')
             (count (mset (map call_status (filter (delivered succeeded_v2) ds))) ''failed'')
             (count (mset (map call_status (filter (delivered succeeded_v2) ds))) ''skipped'')"
      by blast
    have p: "persisted (snd (run step_v2 (BeforeAll e0 # ds) s)) = ys"
      by (simp only: run_Cons snd_conv step_v2.simps persisted_def ys(1) option.case
            file_content.case)
    have q: "snd (run step_v2 (BeforeAll e0 # ds @ [AfterAll ef]) s) =
             snd (afterAllTests_v2 ef (snd (run step_v2 ds ?s1)))"
      by (simp only: run_start_finish step_v2.simps)
    show ?thesis
      unfolding p q using ys(2,3,4) by (intro conjI)
  qed
  have e1: "reports
              (payload_of (last (requests (snd (run step_v1 [BeforeAll e0, AfterAll ef] s)))))
              ''passed'' 0 0 0 0"
    if r: "resolvable (snd (beforeAllTests_v1 e0 s))"
    using v1 [OF r, of "[]"] by (auto simp del: run.simps(2))
  have e2: "reports
              (payload_of (last (requests (snd (run step_v2 [BeforeAll e0, AfterAll ef] s)))))
              ''passed'' 0 0 0 0"
    if r: "resolvable (snd (beforeAllTests_v2 e0 s))"
    using v2 [OF r, of "[]"] by (auto simp del: run.simps(2))
  from v1 e1 v2 e2 show ?thesis by blast
qed

theorem finish_reports_recorded_statuses_witness:
  "isJenkins fresh \<and> fs_ok (answered 1000 run_created) \<and>
   \<not> fails (answered 9000 JNull) ReadJson \<and>
   resolvable (snd (beforeAllTests_v1 (answered 1000 run_created) fresh)) \<and>
   resolvable (snd (beforeAllTests_v2 (answered 1000 run_created) fresh)) \<and>
   list_all (\<lambda>c. \<not> is_BeforeAll c \<and> record_fs_ok c) (four_tests None (Some ''boom'')) \<and>
   list_all (\<lambda>c. \<not> is_BeforeAll c \<and> record_fs_ok c) (four_tests JNull (JStr ''boom'')) \<and>
   length (persisted (snd (run step_v1
      (BeforeAll (answered 1000 run_created) # four_tests None (Some ''boom'')) fresh))) = 4 \<and>
   reports
     (payload_of (last (requests (snd (run step_v1
        (BeforeAll (answered 1000 run_created) # four_tests None (Some ''boom'') @
         [AfterAll (answered 9000 JNull)]) fresh)))))
     ''failed'' 4 3 1 0 \<and>
   reports
     (payload_of (last (requests (snd (run step_v2
        (BeforeAll (answered 1000 run_created) # four_tests JNull (JStr ''boom'') @
         [AfterAll (answered 9000 JNull)]) fresh)))))
     ''failed'' 4 3 1 0 \<and>
   reports
     (payload_of (last (requests (snd (run step_v1
        [BeforeAll (answered 1000 run_created), AfterAll (answered 9000 JNull)] fresh)))))
     ''passed'' 0 0 0 0"
proof -
  let ?e0 = "answered 1000 run_created"
  let ?ef = "answered 9000 JNull"
  let ?cs = "four_tests None (Some ''boom'')"
  let ?ds = "four_tests JNull (JStr ''boom'')"
  have h: "isJenkins fresh" "fs_ok ?e0" "\<not> fails ?ef ReadJson"
    by (simp_all add: fresh_def fs_ok_def answered_def)
  have n: "net ?e0 = Resolved 200 run_created" by (simp add: answered_def)
  have r1: "resolvable (snd (beforeAllTests_v1 ?e0 fresh))"
    by (rule beforeAllTests_v1_resolvable [OF h(1) n]) (simp add: run_created_def)+
  have r2: "resolvable (snd (beforeAllTests_v2 ?e0 fresh))"
    by (rule beforeAllTests_v2_resolvable [OF h(1,2) n]) (simp add: run_created_def)
  have c1: "\<forall>c\<in>set ?cs. \<not> is_BeforeAll c \<and> record_fs_ok c"
    by (simp add: four_tests_def fs_ok_def answered_def)
  have c2: "\<forall>c\<in>set ?ds. \<not> is_BeforeAll c \<and> record_fs_ok c"
    by (simp add: four_tests_def fs_ok_def answered_def)
  have d1: "map call_status (filter (delivered succeeded_v1) ?cs) =
              [''passed'', ''passed'', ''passed'', ''failed'']"
    by (simp add: four_tests_def answered_def)
  have d2: "map call_status (filter (delivered succeeded_v2) ?ds) =
              [''passed'', ''passed'', ''passed'', ''failed'']"
    by (simp add: four_tests_def answered_def)
  note t = finish_reports_recorded_statuses [OF h, of ?cs ?ds]
  from t r1 c1 have m1: "map name_status (persisted (snd (run step_v1 (BeforeAll ?e0 # ?cs) fresh))) =
              map call_name_status (filter (delivered succeeded_v1) ?cs)"
    by blast
  from t r2 c2 have m2: "map name_status (persisted (snd (run step_v2 (BeforeAll ?e0 # ?ds) fresh))) =
              map call_name_status (filter (delivered succeeded_v2) ?ds)"
    by blast
  have l1: "length (persisted (snd (run step_v1 (BeforeAll ?e0 # ?cs) fresh))) = 4"
    using arg_cong [OF m1, of length] arg_cong [OF d1, of length] by (simp only: length_map) simp
  have l2: "length (persisted (snd (run step_v2 (BeforeAll ?e0 # ?ds) fresh))) = 4"
    using arg_cong [OF m2, of length] arg_cong [OF d2, of length] by (simp only: length_map) simp
  have k: "count (mset [''passed'', ''passed'', ''passed'', ''failed'']) ''passed'' = 3"
    "count (mset [''passed'', ''passed'', ''passed'', ''failed'']) ''failed'' = 1"
    "count (mset [''passed'', ''passed'', ''passed'', ''failed'']) ''skipped'' = 0"
    "(''failed'' \<in> set [''passed'', ''passed'', ''passed'', ''failed'']) = True"
    by simp_all
  from t r1 c1 have "reports
     (payload_of (last (requests (snd (run step_v1 (BeforeAll ?e0 # ?cs @ [AfterAll ?ef]) fresh)))))
     (if ''failed'' \<in> set (map call_status (filter (delivered succeeded_v1) ?cs))
      then ''failed'' else ''passed'')
     (length (persisted (snd (run step_v1 (BeforeAll ?e0 # ?cs) fresh))))
     (count (mset (map call_status (filter (delivered succeeded_v1) ?cs))) ''passed'')
     (count (mset (map call_status (filter (delivered succeeded_v1) ?cs))) ''failed'')
     (count (mset (map call_status (filter (delivered succeeded_v1) ?cs))) ''skipped'')"
    by blast
  then have p1: "reports
     (payload_of (last (requests (snd (run step_v1 (BeforeAll ?e0 # ?cs @ [AfterAll ?ef]) fresh)))))
     ''failed'' 4 3 1 0"
    by (simp only: d1 l1 k if_True)
  from t r2 c2 have "reports
     (payload_of (last (requests (snd (run step_v2 (BeforeAll ?e0 # ?ds @ [AfterAll ?ef]) fresh)))))
     (if ''failed'' \<in> set (map call_status (filter (delivered succeeded_v2) ?ds))
      then ''failed'' else ''passed'')
     (length (persisted (snd (run step_v2 (BeforeAll ?e0 # ?ds) fresh))))
     (count (mset (map call_status (filter (delivered succeeded_v2) ?ds))) ''passed'')
     (count (mset (map call_status (filter (delivered succeeded_v2) ?ds))) ''failed'')
     (count (mset (map call_status (filter (delivered succeeded_v2) ?ds))) ''skipped'')"
    by blast
  then have p2: "reports
     (payload_of (last (requests (snd (run step_v2 (BeforeAll ?e0 # ?ds @ [AfterAll ?ef]) fresh)))))
     ''failed'' 4 3 1 0"
    by (simp only: d2 l2 k if_True)
  from t r1 have p0: "reports
     (payload_of (last (requests (snd (run step_v1 [BeforeAll ?e0, AfterAll ?ef] fresh)))))
     ''passed'' 0 0 0 0"
    by blast
  from c1 c2
  have a: "list_all (\<lambda>c. \<not> is_BeforeAll c \<and> record_fs_ok c) ?cs"
    "list_all (\<lambda>c. \<not> is_BeforeAll c \<and> record_fs_ok c) ?ds"
    by (simp_all only: list_all_iff)
  from h r1 r2 a l1 p1 p2 p0 show ?thesis by (intro conjI)
qed

text \<open>
  C1 as stated fails: one call of \<open>afterEachTest\<close> with the status \<open>'failed'\<close> whose
  request is rejected is not counted, and \<open>afterAllTests\<close> reports no test and the
  overall status \<open>'passed'\<close>.
\<close>

theorem rejected_call_not_counted:
  "count (mset (map call_status
      [AfterEach (unreachable 2000) ''TC-1'' ''failed'' (Some ''boom'')])) ''failed'' = 1 \<and>
   reports
     (payload_of (last (requests (snd (run step_v1
        [BeforeAll (answered 1000 run_created),
         AfterEach (unreachable 2000) ''TC-1'' ''failed'' (Some ''boom''),
         AfterAll (answered 9000 JNull)] fresh)))))
     ''passed'' 0 0 0 0 \<and>
   reports
     (payload_of (last (requests (snd (run step_v2
        [BeforeAll (answered 1000 run_created),
         AfterEach (unreachable 2000) ''TC-1'' ''failed'' JUndefined,
         AfterAll (answered 9000 JNull)] fresh)))))
     ''passed'' 0 0 0 0"
proof -
  let ?e0 = "answered 1000 run_created"
  let ?er = "unreachable 2000"
  let ?ef = "answered 9000 JNull"
  have h: "isJenkins fresh" "fs_ok ?e0" "\<not> fails ?ef ReadJson"
    by (simp_all add: fresh_def fs_ok_def answered_def)
  have n: "net ?e0 = Resolved 200 run_created" by (simp add: answered_def)
  have u: "\<not> succeeded_v1 (net ?er)" "\<not> succeeded_v2 (net ?er)"
    by (simp_all add: unreachable_def)
  let ?a1 = "snd (beforeAllTests_v1 ?e0 fresh)"
  let ?b1 = "snd (afterEachTest_v1 ?er ''TC-1'' ''failed'' (Some ''boom'') ?a1)"
  have r1: "resolvable ?a1"
    by (rule beforeAllTests_v1_resolvable [OF h(1) n]) (simp add: run_created_def)+
  have i1: "isJenkins ?b1" by (simp add: afterEachTest_v1_keeps beforeAllTests_v1_keeps h(1))
  have q1: "resolvable ?b1" by (simp add: afterEachTest_v1_keeps r1)
  have f1: "testCasesFile ?b1 = Some (Json_array [])"
    by (simp add: afterEachTest_v1_failed(2) [OF u(1)] beforeAllTests_v1_cleared [OF h(1,2)])
  have p1: "reports (payload_of (last (requests (snd (afterAllTests_v1 ?ef ?b1))))) ''passed'' 0 0 0 0"
    by (simp add: afterAllTests_v1_requests [OF i1 q1 h(3) f1] reports_def field_of_def)
  let ?a2 = "snd (beforeAllTests_v2 ?e0 fresh)"
  let ?b2 = "snd (afterEachTest_v2 ?er ''TC-1'' ''failed'' JUndefined ?a2)"
  have r2: "resolvable ?a2"
    by (rule beforeAllTests_v2_resolvable [OF h(1,2) n]) (simp add: run_created_def)
  have i2: "isJenkins ?b2" by (simp add: afterEachTest_v2_keeps beforeAllTests_v2_keeps h(1))
  have q2: "resolvable ?b2" by (simp add: afterEachTest_v2_keeps r2)
  have f2: "testCasesFile ?b2 = Some (Json_array [])"
    by (simp add: afterEachTest_v2_failed(2) [OF u(2)] beforeAllTests_v2_cleared(1) [OF h(1,2)])
  have p2: "reports (payload_of (last (requests (snd (afterAllTests_v2 ?ef ?b2))))) ''passed'' 0 0 0 0"
    by (simp add: afterAllTests_v2_requests [OF i2 q2 h(3) f2] reports_def field_of_def)
  from p1 p2 show ?thesis by (simp del: run.simps(2) add: run_Cons)
qed

subsection \<open>C2\<close>

text \<open>
  C2, as the code has it. \<open>beforeAllTests\<close> resets the persisted sequence to empty,
  and at \<open>afterAllTests\<close> the records read back from the file are, in the order of the
  calls, one for each call of \<open>afterEachTest\<close> since then whose request succeeded, with
  the title and the status the call was given. The request succeeded, in the first
  variant, when it was answered with a status from 200 to 299 and a body that is neither
  \<open>null\<close> nor \<open>undefined\<close> (the variant reads \<open>test_id\<close> from the body before it saves);
  in the second variant, when the awaited request resolved. A call whose request did
  not succeed in this sense, or that found no run identifier, leaves no record. This
  holds when the file operations of these calls succeed; \<open>markTestStart\<close> and
  \<open>afterAllTests\<close> do not touch the file.
\<close>

theorem persisted_sequence_of_delivered_calls:
  assumes "isJenkins s" "fs_ok e0" "\<not> fails ef ReadJson"
    and "\<forall>c\<in>set cs. \<not> is_BeforeAll c \<and> record_fs_ok c"
    and "\<forall>c\<in>set ds. \<not> is_BeforeAll c \<and> record_fs_ok c"
  shows "testCasesFile (snd (beforeAllTests_v1 e0 s)) = Some (Json_array []) \<and>
         map name_status
           (fst (readTestCasesFromFile_v1 ef (snd (run step_v1 (BeforeAll e0 # cs) s)))) =
           (if resolvable (snd (beforeAllTests_v1 e0 s))
            then map call_name_status (filter (delivered succeeded_v1) cs) else []) \<and>
         testCasesFile (snd (beforeAllTests_v2 e0 s)) = Some (Json_array []) \<and>
         (\<exists>ys. readTestCasesFromFile_v2 ef (snd (run step_v2 (BeforeAll e0 # ds) s)) = Inr ys \<and>
               map name_status ys =
                 (if resolvable (snd (beforeAllTests_v2 e0 s))
                  then map call_name_status (filter (delivered succeeded_v2) ds) else []))"
proof -
  let ?s1 = "snd (beforeAllTests_v1 e0 s)"
  let ?s2 = "snd (run step_v1 cs ?s1)"
  have i1: "isJenkins ?s1" by (simp add: beforeAllTests_v1_keeps assms(1))
  have f1: "testCasesFile ?s1 = Some (Json_array [])"
    by (rule beforeAllTests_v1_cleared [OF assms(1,2)])
  have q1: "snd (run step_v1 (BeforeAll e0 # cs) s) = ?s2"
    by (simp only: run_Cons snd_conv step_v1.simps)
  have v1: "map name_status (fst (readTestCasesFromFile_v1 ef ?s2)) =
           (if resolvable ?s1
            then map call_name_status (filter (delivered succeeded_v1) cs) else [])"
  proof (cases "resolvable ?s1")
    case True
    have "isJenkins ?s2 \<and> resolvable ?s2 \<and>
          (\<exists>ys. testCasesFile ?s2 = Some (Json_array ([] @ ys)) \<and>
                map name_status ys = map call_name_status (filter (delivered succeeded_v1) cs))"
      using i1 True f1 assms(4) by (intro run_file_generic step_v1_file)
    then obtain ys where ys: "testCasesFile ?s2 = Some (Json_array ([] @ ys))"
      "map name_status ys = map call_name_status (filter (delivered succeeded_v1) cs)"
      by blast
    from ys(1) have "testCasesFile ?s2 = Some (Json_array ys)" by (simp only: append_Nil)
    from readTestCasesFromFile_v1_ok [OF assms(3) this] ys(2) True show ?thesis
      by (simp only: if_True)
  next
    case False
    from assms(4) have nb: "\<forall>c\<in>set cs. \<not> is_BeforeAll c" by blast
    have "\<not> resolvable ?s2 \<and> testCasesFile ?s2 = testCasesFile ?s1"
      using False nb by (intro run_unresolved_generic step_v1_unresolved)
    with f1 have "testCasesFile ?s2 = Some (Json_array [])" by simp
    from readTestCasesFromFile_v1_ok [OF assms(3) this] False show ?thesis
      by (simp only: if_False list.map)
  qed
  let ?t1 = "snd (beforeAllTests_v2 e0 s)"
  let ?t2 = "snd (run step_v2 ds ?t1)"
  have i2: "isJenkins ?t1" by (simp add: beforeAllTests_v2_keeps assms(1))
  have f2: "testCasesFile ?t1 = Some (Json_array [])"
    by (rule beforeAllTests_v2_cleared [OF assms(1,2)])
  have q2: "snd (run step_v2 (BeforeAll e0 # ds) s) = ?t2"
    by (simp only: run_Cons snd_conv step_v2.simps)
  have v2: "\<exists>ys. readTestCasesFromFile_v2 ef ?t2 = Inr ys \<and>
               map name_status ys =
                 (if resolvable ?t1
                  then map call_name_status (filter (delivered succeeded_v2) ds) else [])"
  proof (cases "resolvable ?t1")
    case True
    have "isJenkins ?t2 \<and> resolvable ?t2 \<and>
          (\<exists>ys. testCasesFile ?t2 = Some (Json_array ([] @ ys)) \<and>
                map name_status ys = map call_name_status (filter (delivered succeeded_v2) ds))"
      using i2 True f2 assms(5) by (intro run_file_generic step_v2_file)
    then obtain ys where ys: "testCasesFile ?t2 = Some (Json_array ([] @ ys))"
      "map name_status ys = map call_name_status (filter (delivered succeeded_v2) ds)"
      by blast
    from ys(1) have "testCasesFile ?t2 = Some (Json_array ys)" by (simp only: append_Nil)
    from readTestCasesFromFile_v2_ok [OF assms(3) this] ys(2) True show ?thesis
      by (simp only: if_True) blast
  next
    case False
    from assms(5) have nb: "\<forall>c\<in>set ds. \<not> is_BeforeAll c" by blast
    have "\<not> resolvable ?t2 \<and> testCasesFile ?t2 = testCasesFile ?t1"
      using False nb by (intro run_unresolved_generic step_v2_unresolved)
    with f2 have "testCasesFile ?t2 = Some (Json_array [])" by simp
    from readTestCasesFromFile_v2_ok [OF assms(3) this] False show ?thesis
      by (simp only: if_False) simp
  qed
  from f1 v1 f2 v2 show ?thesis unfolding q1 q2 by (intro conjI)
qed

theorem persisted_sequence_of_delivered_calls_witness:
  "isJenkins fresh \<and> fs_ok (answered 1000 run_created) \<and>
   \<not> fails (answered 9000 JNull) ReadJson \<and>
   list_all (\<lambda>c. \<not> is_BeforeAll c \<and> record_fs_ok c) (four_tests None (Some ''boom'')) \<and>
   list_all (\<lambda>c. \<not> is_BeforeAll c \<and> record_fs_ok c) (four_tests JNull (JStr ''boom'')) \<and>
   resolvable (snd (beforeAllTests_v1 (answered 1000 run_created) fresh)) \<and>
   map name_status
     (fst (readTestCasesFromFile_v1 (answered 9000 JNull)
        (snd (run step_v1
           (BeforeAll (answered 1000 run_created) # four_tests None (Some ''boom'')) fresh)))) =
     [(Some (S ''TC-1''), Some (S ''passed'')), (Some (S ''TC-2''), Some (S ''passed'')),
      (Some (S ''TC-3''), Some (S ''passed'')), (Some (S ''TC-4''), Some (S ''failed''))]"
proof -
  let ?e0 = "answered 1000 run_created"
  let ?cs = "four_tests None (Some ''boom'')"
  let ?ds = "four_tests JNull (JStr ''boom'')"
  have h: "isJenkins fresh" "fs_ok ?e0" "\<not> fails (answered 9000 JNull) ReadJson"
    by (simp_all add: fresh_def fs_ok_def answered_def)
  have n: "net ?e0 = Resolved 200 run_created" by (simp add: answered_def)
  have r1: "resolvable (snd (beforeAllTests_v1 ?e0 fresh))"
    by (rule beforeAllTests_v1_resolvable [OF h(1) n]) (simp add: run_created_def)+
  have c1: "\<forall>c\<in>set ?cs. \<not> is_BeforeAll c \<and> record_fs_ok c"
    by (simp add: four_tests_def fs_ok_def answered_def)
  have c2: "\<forall>c\<in>set ?ds. \<not> is_BeforeAll c \<and> record_fs_ok c"
    by (simp add: four_tests_def fs_ok_def answered_def)
  have d1: "map call_name_status (filter (delivered succeeded_v1) ?cs) =
     [(Some (S ''TC-1''), Some (S ''passed'')), (Some (S ''TC-2''), Some (S ''passed'')),
      (Some (S ''TC-3''), Some (S ''passed'')), (Some (S ''TC-4''), Some (S ''failed''))]"
    by (simp add: four_tests_def answered_def)
  from persisted_sequence_of_delivered_calls [OF h c1 c2] r1 d1
  have "map name_status
     (fst (readTestCasesFromFile_v1 (answered 9000 JNull)
        (snd (run step_v1 (BeforeAll ?e0 # ?cs) fresh)))) =
     [(Some (S ''TC-1''), Some (S ''passed'')), (Some (S ''TC-2''), Some (S ''passed'')),
      (Some (S ''TC-3''), Some (S ''passed'')), (Some (S ''TC-4''), Some (S ''failed''))]"
    by (simp only: if_True)
  moreover from c1 c2
  have "list_all (\<lambda>c. \<not> is_BeforeAll c \<and> record_fs_ok c) ?cs"
    "list_all (\<lambda>c. \<not> is_BeforeAll c \<and> record_fs_ok c) ?ds"
    by (simp_all only: list_all_iff)
  ultimately show ?thesis using h r1 by (intro conjI)
qed

text \<open>
  C2 as stated fails: after a start whose request was answered, one call of
  \<open>afterEachTest\<close> whose request is rejected leaves nothing to read back.
\<close>

theorem failed_call_leaves_no_record:
  "map name_status
     (fst (readTestCasesFromFile_v1 (answered 9000 JNull)
        (snd (run step_v1
           [BeforeAll (answered 1000 run_created),
            AfterEach (unreachable 2000) ''TC-1'' ''passed'' None] fresh)))) \<noteq>
   map call_name_status [AfterEach (unreachable 2000) ''TC-1'' ''passed'' (None :: string option)]"
proof -
  let ?e0 = "answered 1000 run_created"
  let ?s1 = "snd (beforeAllTests_v1 ?e0 fresh)"
  have h: "isJenkins fresh" "fs_ok ?e0" "\<not> fails (answered 9000 JNull) ReadJson"
    by (simp_all add: fresh_def fs_ok_def answered_def)
  have f1: "testCasesFile ?s1 = Some (Json_array [])"
    by (rule beforeAllTests_v1_cleared [OF h(1,2)])
  have "\<not> succeeded_v1 (net (unreachable 2000))" by (simp add: unreachable_def)
  then have "testCasesFile (snd (afterEachTest_v1 (unreachable 2000) ''TC-1'' ''passed'' None ?s1))
               = Some (Json_array [])"
    by (simp add: afterEachTest_v1_failed f1)
  from readTestCasesFromFile_v1_ok [OF h(3) this]
  show ?thesis by (simp del: run.simps(2) add: run_Cons)
qed

subsection \<open>C3\<close>

text \<open>
  C3. In the second variant a file error leaves \<open>beforeAllTests\<close> and \<open>afterAllTests\<close>
  as an exception: \<open>clearTestCasesFile\<close> and \<open>readTestCasesFromFile\<close> are called outside
  the \<open>try\<close> and catch nothing themselves. Here the write of the empty array fails in
  \<open>beforeAllTests\<close>, and \<open>afterAllTests\<close> finds a file it cannot parse.
\<close>

theorem file_error_propagates_v2:
  "fst (beforeAllTests_v2 (unwritable 1000 JNull) fresh) = Threw (FsError WriteJson) \<and>
   fst (afterAllTests_v2 (answered 1000 JNull) (started\<lparr>testCasesFile := Some Corrupt\<rparr>))
     = Threw SyntaxError"
  by (simp add: beforeAllTests_v2_def afterAllTests_v2_def clearTestCasesFile_v2_def
        ensureDirSync_def writeJsonSync_def readTestCasesFromFile_v2_def readJsonSync_def
        existsSync_def getPipelineRunId_def unwritable_def answered_def fresh_def started_def
        Let_def)

subsection \<open>C4\<close>

text \<open>
  C4, as the code has it. With reporting enabled and a resolvable run identifier,
  \<open>afterEachTest\<close> appends the local record only after its request has succeeded (for
  the first variant a response with a status in 200..299 and a body, for the second a
  resolved promise) and when the file operations succeed. When the request fails, the
  call returns \<open>null\<close> and leaves the persisted sequence as it was.
\<close>

theorem local_append_needs_remote_success:
  assumes "isJenkins s" "resolvable s"
  shows "(\<not> succeeded_v1 (net e) \<longrightarrow>
            fst (afterEachTest_v1 e t st m s) = Returned JNull \<and>
            testCasesFile (snd (afterEachTest_v1 e t st m s)) = testCasesFile s) \<and>
         (succeeded_v1 (net e) \<and> fs_ok e \<and> testCasesFile s = Some (Json_array xs) \<longrightarrow>
            (\<exists>r. testCasesFile (snd (afterEachTest_v1 e t st m s)) = Some (Json_array (xs @ [r])) \<and>
                 name_status r = (Some (S t), Some (S st)) \<and>
                 field_of r ''duration'' =
                   Some (Seconds (case testStartTime s of
                                    Some t0 \<Rightarrow> clock e 0 - t0 | None \<Rightarrow> 0)))) \<and>
         (\<not> succeeded_v2 (net e) \<longrightarrow>
            fst (afterEachTest_v2 e t st f s) = Returned JNull \<and>
            testCasesFile (snd (afterEachTest_v2 e t st f s)) = testCasesFile s) \<and>
         (succeeded_v2 (net e) \<and> fs_ok e \<and> testCasesFile s = Some (Json_array xs) \<longrightarrow>
            (\<exists>r. testCasesFile (snd (afterEachTest_v2 e t st f s)) = Some (Json_array (xs @ [r])) \<and>
                 name_status r = (Some (S t), Some (S st)) \<and>
                 field_of r ''duration'' =
                   Some (S (formatDuration
                              (case testStartTime s of
                                 Some t0 \<Rightarrow> if t0 \<noteq> 0 then clock e 0 - t0 else 0
                               | None \<Rightarrow> 0)))))"
proof (intro conjI impI)
  assume "\<not> succeeded_v1 (net e)"
  then show "fst (afterEachTest_v1 e t st m s) = Returned JNull"
    and "testCasesFile (snd (afterEachTest_v1 e t st m s)) = testCasesFile s"
    by (rule afterEachTest_v1_failed)+
next
  assume a: "succeeded_v1 (net e) \<and> fs_ok e \<and> testCasesFile s = Some (Json_array xs)"
  then obtain code d where n: "net e = Resolved code d" by (cases "net e") simp_all
  from a have a1: "succeeded_v1 (net e)" and a2: "fs_ok e"
    and a3: "testCasesFile s = Some (Json_array xs)" by simp_all
  from afterEachTest_v1_saved(2) [OF assms n a1 a2 a3, of t st m]
  obtain i where "testCasesFile (snd (afterEachTest_v1 e t st m s)) =
           Some (Json_array (xs @
             [[(''test_id'', Json i), (''name'', S t), (''status'', S st),
               (''duration'',
                  Seconds (case testStartTime s of Some t0 \<Rightarrow> clock e 0 - t0 | None \<Rightarrow> 0)),
               (''timestamp'', IsoTime (clock e 3))]]))"
    by blast
  then show "\<exists>r. testCasesFile (snd (afterEachTest_v1 e t st m s)) = Some (Json_array (xs @ [r])) \<and>
                 name_status r = (Some (S t), Some (S st)) \<and>
                 field_of r ''duration'' =
                   Some (Seconds (case testStartTime s of
                                    Some t0 \<Rightarrow> clock e 0 - t0 | None \<Rightarrow> 0))"
    by (simp add: name_status_def field_of_def)
next
  assume "\<not> succeeded_v2 (net e)"
  then show "fst (afterEachTest_v2 e t st f s) = Returned JNull"
    and "testCasesFile (snd (afterEachTest_v2 e t st f s)) = testCasesFile s"
    by (rule afterEachTest_v2_failed)+
next
  assume a: "succeeded_v2 (net e) \<and> fs_ok e \<and> testCasesFile s = Some (Json_array xs)"
  then obtain code d where n: "net e = Resolved code d" by (cases "net e") simp_all
  from a have a2: "fs_ok e" and a3: "testCasesFile s = Some (Json_array xs)" by simp_all
  note sv = afterEachTest_v2_saved(2) [OF assms n a2 a3, of t st f]
  show "\<exists>r. testCasesFile (snd (afterEachTest_v2 e t st f s)) = Some (Json_array (xs @ [r])) \<and>
                 name_status r = (Some (S t), Some (S st)) \<and>
                 field_of r ''duration'' =
                   Some (S (formatDuration
                              (case testStartTime s of
                                 Some t0 \<Rightarrow> if t0 \<noteq> 0 then clock e 0 - t0 else 0
                               | None \<Rightarrow> 0)))"
    by (simp add: sv name_status_def field_of_def)
qed

theorem local_append_needs_remote_success_witness:
  "isJenkins started \<and> resolvable started \<and>
   \<not> succeeded_v1 (net (unreachable 1000)) \<and> \<not> succeeded_v2 (net (unreachable 1000)) \<and>
   fst (afterEachTest_v1 (unreachable 1000) ''TC-1'' ''passed'' None started) = Returned JNull \<and>
   testCasesFile (snd (afterEachTest_v1 (unreachable 1000) ''TC-1'' ''passed'' None started))
     = Some (Json_array []) \<and>
   fst (afterEachTest_v2 (unreachable 1000) ''TC-1'' ''passed'' JUndefined started) = Returned JNull \<and>
   testCasesFile (snd (afterEachTest_v2 (unreachable 1000) ''TC-1'' ''passed'' JUndefined started))
     = Some (Json_array [])"
proof -
  have h: "isJenkins started" "resolvable started"
    by (simp_all add: started_def fresh_def resolvable_def getPipelineRunId_def Let_def)
  have g: "\<not> succeeded_v1 (net (unreachable 1000))" "\<not> succeeded_v2 (net (unreachable 1000))"
    "testCasesFile started = Some (Json_array [])"
    by (simp_all add: unreachable_def started_def)
  show ?thesis
    using h g
      local_append_needs_remote_success
        [OF h, of "unreachable 1000" "''TC-1''" "''passed''" None "[]" JUndefined]
    by simp
qed

text \<open>
  C4 as stated fails: with a run identifier resolvable and the request rejected, neither
  variant appends a record.
\<close>

theorem failed_request_drops_record:
  "isJenkins started \<and> resolvable started \<and>
   net (unreachable 1000) = Rejected None \<and>
   testCasesFile started = Some (Json_array []) \<and>
   testCasesFile (snd (afterEachTest_v1 (unreachable 1000) ''TC-1'' ''passed'' None started))
     = Some (Json_array []) \<and>
   testCasesFile (snd (afterEachTest_v2 (unreachable 1000) ''TC-1'' ''passed'' JUndefined started))
     = Some (Json_array [])"
proof -
  have h: "isJenkins started" "resolvable started"
    by (simp_all add: started_def fresh_def resolvable_def getPipelineRunId_def Let_def)
  have g: "\<not> succeeded_v1 (net (unreachable 1000))" "\<not> succeeded_v2 (net (unreachable 1000))"
    "testCasesFile started = Some (Json_array [])" "net (unreachable 1000) = Rejected None"
    by (simp_all add: unreachable_def started_def)
  show ?thesis
    using h g by (simp add: afterEachTest_v1_failed afterEachTest_v2_failed)
qed

subsection \<open>C5\<close>

text \<open>
  C5. When reporting is disabled, every call of \<open>beforeAllTests\<close>, \<open>afterEachTest\<close> or
  \<open>afterAllTests\<close>, with any arguments and in any sequence of any length, issues no
  request, leaves the test-cases file as it is and returns \<open>null\<close>, in both variants.
  (\<open>markTestStart\<close> returns nothing.)
\<close>

theorem disabled_mode_no_effect:
  assumes "\<not> isJenkins s"
  shows "fst (run step_v1 cs s) =
           map (\<lambda>c. if is_MarkStart c then Returned JUndefined else Returned JNull) cs \<and>
         requests (snd (run step_v1 cs s)) = requests s \<and>
         testCasesFile (snd (run step_v1 cs s)) = testCasesFile s \<and>
         fst (run step_v2 ds s) =
           map (\<lambda>c. if is_MarkStart c then Returned JUndefined else Returned JNull) ds \<and>
         requests (snd (run step_v2 ds s)) = requests s \<and>
         testCasesFile (snd (run step_v2 ds s)) = testCasesFile s"
  using disabled_run_v1 [OF assms, of cs] disabled_run_v2 [OF assms, of ds] by simp

theorem disabled_mode_no_effect_witness:
  "\<not> isJenkins disabled \<and>
   fst (run step_v1
          [BeforeAll (answered 1000 (JObj [(''run_id'', JStr ''run-42'')])),
           AfterEach (answered 2000 JNull) ''TC-1'' ''failed'' (Some ''boom''),
           AfterEach (unreachable 3000) ''TC-2'' ''passed'' None,
           AfterAll (answered 4000 JNull)] disabled) =
     [Returned JNull, Returned JNull, Returned JNull, Returned JNull] \<and>
   requests (snd (run step_v1
          [BeforeAll (answered 1000 (JObj [(''run_id'', JStr ''run-42'')])),
           AfterEach (answered 2000 JNull) ''TC-1'' ''failed'' (Some ''boom''),
           AfterEach (unreachable 3000) ''TC-2'' ''passed'' None,
           AfterAll (answered 4000 JNull)] disabled)) = [] \<and>
   testCasesFile (snd (run step_v2
          [BeforeAll (answered 1000 JNull),
           AfterEach (answered 2000 JNull) ''TC-1'' ''failed'' (JStr ''login''),
           AfterAll (answered 4000 JNull)] disabled)) = None"
  using disabled_mode_no_effect
          [of disabled
              "[BeforeAll (answered 1000 (JObj [(''run_id'', JStr ''run-42'')])),
                AfterEach (answered 2000 JNull) ''TC-1'' ''failed'' (Some ''boom''),
                AfterEach (unreachable 3000) ''TC-2'' ''passed'' None,
                AfterAll (answered 4000 JNull)]"
              "[BeforeAll (answered 1000 JNull),
                AfterEach (answered 2000 JNull) ''TC-1'' ''failed'' (JStr ''login''),
                AfterAll (answered 4000 JNull)]"]
  by (simp add: disabled_def fresh_def)

subsection \<open>C6\<close>

text \<open>
  C6, as the code has it. While reporting is enabled and no run identifier is resolvable,
  \<open>afterEachTest\<close> and \<open>afterAllTests\<close> issue no request, leave the test-cases file as it
  is and return \<open>null\<close>. The first variant logs one error line for the skipped call; the
  second variant logs nothing.
\<close>

theorem missing_run_id_skipped:
  assumes "isJenkins s" "\<not> resolvable s"
  shows "fst (afterEachTest_v1 e t st m s) = Returned JNull \<and>
         requests (snd (afterEachTest_v1 e t st m s)) = requests s \<and>
         testCasesFile (snd (afterEachTest_v1 e t st m s)) = testCasesFile s \<and>
         log (snd (afterEachTest_v1 e t st m s)) =
           log s @ [Error ''API-3 Skipped: No Pipeline Run ID available''] \<and>
         fst (afterAllTests_v1 e s) = Returned JNull \<and>
         requests (snd (afterAllTests_v1 e s)) = requests s \<and>
         testCasesFile (snd (afterAllTests_v1 e s)) = testCasesFile s \<and>
         log (snd (afterAllTests_v1 e s)) =
           log s @ [Error ''API-4 Skipped: No Pipeline Run ID available''] \<and>
         fst (afterEachTest_v2 e t st f s) = Returned JNull \<and>
         requests (snd (afterEachTest_v2 e t st f s)) = requests s \<and>
         testCasesFile (snd (afterEachTest_v2 e t st f s)) = testCasesFile s \<and>
         log (snd (afterEachTest_v2 e t st f s)) = log s \<and>
         fst (afterAllTests_v2 e s) = Returned JNull \<and>
         requests (snd (afterAllTests_v2 e s)) = requests s \<and>
         testCasesFile (snd (afterAllTests_v2 e s)) = testCasesFile s \<and>
         log (snd (afterAllTests_v2 e s)) = log s"
  using assms
  by (simp add: afterEachTest_v1_unresolved afterEachTest_v1_unresolved_log
        afterAllTests_v1_unresolved afterEachTest_v2_unresolved afterAllTests_v2_unresolved)

theorem missing_run_id_skipped_witness:
  "isJenkins fresh \<and> \<not> resolvable fresh \<and>
   fst (afterEachTest_v1 (answered 1000 JNull) ''TC-1'' ''passed'' None fresh) = Returned JNull \<and>
   requests (snd (afterEachTest_v1 (answered 1000 JNull) ''TC-1'' ''passed'' None fresh)) = [] \<and>
   log (snd (afterAllTests_v1 (answered 1000 JNull) fresh)) =
     [Error ''API-4 Skipped: No Pipeline Run ID available''] \<and>
   testCasesFile (snd (afterAllTests_v2 (answered 1000 JNull) fresh)) = None"
proof -
  have h: "isJenkins fresh" "\<not> resolvable fresh"
    by (simp_all add: fresh_def resolvable_def getPipelineRunId_def)
  show ?thesis
    using h
      missing_run_id_skipped [OF h, of "answered 1000 JNull" "''TC-1''" "''passed''" None JNull]
    by (simp add: fresh_def)
qed

text \<open>
  C6 as stated fails: the second variant skips the call without a log line.
\<close>

theorem missing_run_id_not_logged:
  "isJenkins fresh \<and> \<not> resolvable fresh \<and>
   log (snd (afterEachTest_v2 (answered 1000 JNull) ''TC-1'' ''passed'' JNull fresh)) = log fresh \<and>
   log (snd (afterAllTests_v2 (answered 1000 JNull) fresh)) = log fresh"
  by (simp add: fresh_def resolvable_def getPipelineRunId_def afterEachTest_v2_def
        afterAllTests_v2_def)

subsection \<open>C7\<close>

text \<open>
  C7, as the code has it. The duration \<open>afterEachTest\<close> computes is the clock reading
  of the call minus the reading of the most recent \<open>markTestStart\<close>, and zero when no
  mark was ever taken. The difference is taken as it is, so the duration is not negative
  exactly when the clock has not gone back since the mark. The first variant sends the
  duration as seconds with two decimals, the second as \<open>formatDuration\<close> of it. In the
  second variant the mark is a number, and this is stated for a mark whose reading is
  not 0.
\<close>

theorem duration_since_last_mark:
  "(isJenkins (snd (run step_v1 cs s)) \<and> resolvable (snd (run step_v1 cs s)) \<longrightarrow>
      (\<exists>d. field_of (payload_of (last (requests (snd
                (afterEachTest_v1 e t st m (snd (run step_v1 cs s))))))) ''duration'' =
              Some (SecondsFixed2 d) \<and>
           (last_mark (testStartTime s) cs = None \<longrightarrow> d = 0) \<and>
           (\<forall>t0. last_mark (testStartTime s) cs = Some t0 \<longrightarrow>
                  d = clock e 0 - t0 \<and> (0 \<le> d \<longleftrightarrow> t0 \<le> clock e 0)))) \<and>
   (isJenkins (snd (run step_v2 ds s)) \<and> resolvable (snd (run step_v2 ds s)) \<longrightarrow>
      (\<exists>d. field_of (payload_of (last (requests (snd
                (afterEachTest_v2 e t st f (snd (run step_v2 ds s))))))) ''duration'' =
              Some (S (formatDuration d)) \<and>
           (last_mark (testStartTime s) ds = None \<longrightarrow> d = 0) \<and>
           (\<forall>t0. last_mark (testStartTime s) ds = Some t0 \<and> t0 \<noteq> 0 \<longrightarrow>
                  d = clock e 0 - t0 \<and> (0 \<le> d \<longleftrightarrow> t0 \<le> clock e 0))))"
proof (intro conjI impI)
  assume a: "isJenkins (snd (run step_v1 cs s)) \<and> resolvable (snd (run step_v1 cs s))"
  let ?d = "case last_mark (testStartTime s) cs of Some t0 \<Rightarrow> clock e 0 - t0 | None \<Rightarrow> 0"
  from a have "field_of (payload_of (last (requests (snd
                (afterEachTest_v1 e t st m (snd (run step_v1 cs s))))))) ''duration'' =
              Some (SecondsFixed2 ?d)"
    by (simp add: afterEachTest_v1_requests field_of_def run_v1_last_mark)
  then show "\<exists>d. field_of (payload_of (last (requests (snd
                (afterEachTest_v1 e t st m (snd (run step_v1 cs s))))))) ''duration'' =
              Some (SecondsFixed2 d) \<and>
           (last_mark (testStartTime s) cs = None \<longrightarrow> d = 0) \<and>
           (\<forall>t0. last_mark (testStartTime s) cs = Some t0 \<longrightarrow>
                  d = clock e 0 - t0 \<and> (0 \<le> d \<longleftrightarrow> t0 \<le> clock e 0))"
    by (intro exI [of _ ?d]) simp
next
  assume a: "isJenkins (snd (run step_v2 ds s)) \<and> resolvable (snd (run step_v2 ds s))"
  let ?d = "case last_mark (testStartTime s) ds of
              Some t0 \<Rightarrow> if t0 \<noteq> 0 then clock e 0 - t0 else 0 | None \<Rightarrow> 0"
  from a have "field_of (payload_of (last (requests (snd
                (afterEachTest_v2 e t st f (snd (run step_v2 ds s))))))) ''duration'' =
              Some (S (formatDuration ?d))"
    by (simp add: afterEachTest_v2_requests field_of_def run_v2_last_mark)
  then show "\<exists>d. field_of (payload_of (last (requests (snd
                (afterEachTest_v2 e t st f (snd (run step_v2 ds s))))))) ''duration'' =
              Some (S (formatDuration d)) \<and>
           (last_mark (testStartTime s) ds = None \<longrightarrow> d = 0) \<and>
           (\<forall>t0. last_mark (testStartTime s) ds = Some t0 \<and> t0 \<noteq> 0 \<longrightarrow>
                  d = clock e 0 - t0 \<and> (0 \<le> d \<longleftrightarrow> t0 \<le> clock e 0))"
    by (intro exI [of _ ?d]) simp
qed

theorem duration_since_last_mark_witness:
  "isJenkins (snd (run step_v1 [MarkStart 2000] started)) \<and>
   resolvable (snd (run step_v1 [MarkStart 2000] started)) \<and>
   isJenkins (snd (run step_v2 [MarkStart 2000] started)) \<and>
   resolvable (snd (run step_v2 [MarkStart 2000] started)) \<and>
   last_mark (testStartTime started) [MarkStart 2000 :: string option call] = Some 2000 \<and>
   last_mark (testStartTime started) [MarkStart 2000 :: jsval call] = Some 2000 \<and>
   (2000::int) \<noteq> 0 \<and> 2000 \<le> clock (unreachable 3500) 0 \<and>
   field_of (payload_of (last (requests (snd
      (afterEachTest_v1 (unreachable 3500) ''TC-1'' ''passed'' None
         (snd (run step_v1 [MarkStart 2000] started))))))) ''duration'' =
     Some (SecondsFixed2 1500) \<and>
   field_of (payload_of (last (requests (snd
      (afterEachTest_v2 (unreachable 3500) ''TC-1'' ''passed'' JUndefined
         (snd (run step_v2 [MarkStart 2000] started))))))) ''duration'' =
     Some (S (formatDuration 1500))"
proof -
  have h: "isJenkins (snd (run step_v1 [MarkStart 2000] started))"
    "resolvable (snd (run step_v1 [MarkStart 2000] started))"
    "isJenkins (snd (run step_v2 [MarkStart 2000] started))"
    "resolvable (snd (run step_v2 [MarkStart 2000] started))"
    by (simp_all add: started_def fresh_def resolvable_def getPipelineRunId_def Let_def)
  have g: "last_mark (testStartTime started) [MarkStart 2000 :: string option call] = Some 2000"
    "last_mark (testStartTime started) [MarkStart 2000 :: jsval call] = Some 2000"
    "clock (unreachable 3500) 0 = 3500"
    by (simp_all add: unreachable_def)
  show ?thesis
    using h g
      duration_since_last_mark
        [of "[MarkStart 2000]" started "unreachable 3500" "''TC-1''" "''passed''" None
            "[MarkStart 2000]" JUndefined]
    by simp
qed

text \<open>
  C7 as stated fails: a mark taken at the reading 2000 and a call at the reading 1000 give
  the duration -1000 in the first variant and the string \<open>-1:-1:-1\<close> in the second.
\<close>

theorem duration_negative_after_clock_step_back:
  "isJenkins (snd (run step_v1 [MarkStart 2000] started)) \<and>
   resolvable (snd (run step_v1 [MarkStart 2000] started)) \<and>
   clock (unreachable 1000) 0 = 1000 \<and>
   field_of (payload_of (last (requests (snd
      (afterEachTest_v1 (unreachable 1000) ''TC-1'' ''passed'' None
         (snd (run step_v1 [MarkStart 2000] started))))))) ''duration'' =
     Some (SecondsFixed2 (- 1000)) \<and>
   field_of (payload_of (last (requests (snd
      (afterEachTest_v2 (unreachable 1000) ''TC-1'' ''passed'' JUndefined
         (snd (run step_v2 [MarkStart 2000] started))))))) ''duration'' =
     Some (S ''-1:-1:-1'')"
proof -
  have h: "isJenkins (snd (run step_v1 [MarkStart 2000] started))"
    "resolvable (snd (run step_v1 [MarkStart 2000] started))"
    "isJenkins (snd (run step_v2 [MarkStart 2000] started))"
    "resolvable (snd (run step_v2 [MarkStart 2000] started))"
    by (simp_all add: started_def fresh_def resolvable_def getPipelineRunId_def Let_def)
  have c: "clock (unreachable 1000) 0 = 1000" by (simp add: unreachable_def)
  have f: "formatDuration (- 1000) = ''-1:-1:-1''" by (rule formatDuration_minus_1000)
  have m: "testStartTime (snd (run step_v1 [MarkStart 2000] started)) = Some 2000"
    "testStartTime (snd (run step_v2 [MarkStart 2000] started)) = Some 2000"
    by simp_all
  show ?thesis
    using h c by (simp add: afterEachTest_v1_requests afterEachTest_v2_requests field_of_def m f
                    del: run.simps)
qed

subsection \<open>C8\<close>

text \<open>
  C8, as the code has it. In the first variant the request of \<open>afterEachTest\<close> carries
  \<open>error_message\<close>, the first 500 characters of the message, exactly when the status is
  \<open>'failed'\<close> and the message is neither \<open>null\<close> nor empty; otherwise it has no such
  field. The request of the second variant never has the field: its third parameter is a
  feature label.
\<close>

theorem error_message_field:
  assumes "isJenkins s" "resolvable s"
  shows "field_of (payload_of (last (requests (snd (afterEachTest_v1 e t st m s)))))
           ''error_message'' =
           (case m of
              None \<Rightarrow> None
            | Some msg \<Rightarrow>
                if msg \<noteq> [] \<and> st = ''failed'' then Some (S (take 500 msg)) else None) \<and>
         field_of (payload_of (last (requests (snd (afterEachTest_v2 e t st f s)))))
           ''error_message'' = None"
  using assms
  by (simp add: afterEachTest_v1_requests afterEachTest_v2_requests field_of_def
        split: option.splits)

theorem error_message_field_witness:
  "isJenkins started \<and> resolvable started \<and>
   field_of (payload_of (last (requests (snd
      (afterEachTest_v1 (answered 1000 JNull) ''TC-1'' ''failed'' (Some ''boom'') started)))))
      ''error_message'' = Some (S ''boom'') \<and>
   field_of (payload_of (last (requests (snd
      (afterEachTest_v2 (answered 1000 JNull) ''TC-1'' ''failed'' (JStr ''boom'') started)))))
      ''error_message'' = None"
proof -
  have h: "isJenkins started" "resolvable started"
    by (simp_all add: started_def fresh_def resolvable_def getPipelineRunId_def Let_def)
  show ?thesis
    using h
      error_message_field [OF h, of "answered 1000 JNull" "''TC-1''" "''failed''"
                              "Some ''boom''" "JStr ''boom''"]
    by simp
qed

text \<open>
  C8 as stated fails: the request of the second variant carries no \<open>error_message\<close> for
  a failed test reported with a message, and the request of the first variant carries
  none when the message is the empty string.
\<close>

theorem error_message_missing:
  "isJenkins started \<and> resolvable started \<and>
   field_of (payload_of (last (requests (snd
      (afterEachTest_v2 (answered 1000 JNull) ''TC-1'' ''failed'' (JStr ''boom'') started)))))
      ''error_message'' = None \<and>
   field_of (payload_of (last (requests (snd
      (afterEachTest_v1 (answered 1000 JNull) ''TC-1'' ''failed'' (Some []) started)))))
      ''error_message'' = None"
proof -
  have h: "isJenkins started" "resolvable started"
    by (simp_all add: started_def fresh_def resolvable_def getPipelineRunId_def Let_def)
  show ?thesis
    using h by (simp add: afterEachTest_v1_requests afterEachTest_v2_requests field_of_def)
qed

subsection \<open>C9\<close>

text \<open>
  C9. In the payload \<open>afterAllTests\<close> computes from any persisted list of records,
  \<open>total_tests\<close> is the number of records and \<open>passed\<close>, \<open>failed\<close> and \<open>aborted\<close> are the
  numbers of records whose status is \<open>'passed'\<close>, \<open>'failed'\<close> and \<open>'skipped'\<close>; their sum
  is at most \<open>total_tests\<close>, with equality exactly when every record has one of the three
  statuses; and the overall status is \<open>'failed'\<close> exactly when some record has the status
  \<open>'failed'\<close>, so a record with another status does not force it.
\<close>

theorem aggregate_counts_bounded:
  assumes "isJenkins s" "resolvable s"
    and "\<not> fails e ReadJson" "testCasesFile s = Some (Json_array tests)"
  shows "reports (payload_of (last (requests (snd (afterAllTests_v1 e s)))))
           (if \<exists>t\<in>set tests. field_of t ''status'' = Some (S ''failed'')
            then ''failed'' else ''passed'')
           (length tests) (count_status ''passed'' tests)
           (count_status ''failed'' tests) (count_status ''skipped'' tests) \<and>
         reports (payload_of (last (requests (snd (afterAllTests_v2 e s)))))
           (if \<exists>t\<in>set tests. field_of t ''status'' = Some (S ''failed'')
            then ''failed'' else ''passed'')
           (length tests) (count_status ''passed'' tests)
           (count_status ''failed'' tests) (count_status ''skipped'' tests) \<and>
         count_status ''passed'' tests + count_status ''failed'' tests +
           count_status ''skipped'' tests \<le> length tests \<and>
         ((count_status ''passed'' tests + count_status ''failed'' tests +
             count_status ''skipped'' tests = length tests) \<longleftrightarrow>
          (\<forall>t\<in>set tests. field_of t ''status'' = Some (S ''passed'') \<or>
                         field_of t ''status'' = Some (S ''failed'') \<or>
                         field_of t ''status'' = Some (S ''skipped'')))"
proof -
  have f: "(\<exists>t\<in>set tests. field_of t ''status'' = Some (S ''failed'')) \<longleftrightarrow>
           0 < count_status ''failed'' tests"
    by (simp only: count_status_pos)
  have v1: "reports (payload_of (last (requests (snd (afterAllTests_v1 e s)))))
           (if \<exists>t\<in>set tests. field_of t ''status'' = Some (S ''failed'')
            then ''failed'' else ''passed'')
           (length tests) (count_status ''passed'' tests)
           (count_status ''failed'' tests) (count_status ''skipped'' tests)"
    unfolding f
    by (simp add: afterAllTests_v1_requests [OF assms] reports_def field_of_def)
  have v2: "reports (payload_of (last (requests (snd (afterAllTests_v2 e s)))))
           (if \<exists>t\<in>set tests. field_of t ''status'' = Some (S ''failed'')
            then ''failed'' else ''passed'')
           (length tests) (count_status ''passed'' tests)
           (count_status ''failed'' tests) (count_status ''skipped'' tests)"
    unfolding f
    by (simp add: afterAllTests_v2_requests [OF assms] reports_def field_of_def)
  from v1 v2 count_status_sum [of tests] count_status_sum_eq [of tests]
  show ?thesis by (simp only: simp_thms)
qed

theorem aggregate_counts_bounded_witness:
  "isJenkins mixed \<and> resolvable mixed \<and> \<not> fails (answered 5000 JNull) ReadJson \<and>
   testCasesFile mixed =
     Some (Json_array [[(''name'', S ''TC-1''), (''status'', S ''passed'')],
                       [(''name'', S ''TC-2''), (''status'', S ''broken'')]]) \<and>
   reports (payload_of (last (requests (snd (afterAllTests_v1 (answered 5000 JNull) mixed)))))
     ''passed'' 2 1 0 0 \<and>
   reports (payload_of (last (requests (snd (afterAllTests_v2 (answered 5000 JNull) mixed)))))
     ''passed'' 2 1 0 0 \<and>
   field_of [(''name'', S ''TC-2''), (''status'', S ''broken'')] ''status'' = Some (S ''broken'')"
proof -
  have h: "isJenkins mixed" "resolvable mixed" "\<not> fails (answered 5000 JNull) ReadJson"
    "testCasesFile mixed =
       Some (Json_array [[(''name'', S ''TC-1''), (''status'', S ''passed'')],
                         [(''name'', S ''TC-2''), (''status'', S ''broken'')]])"
    by (simp_all add: mixed_def started_def fresh_def resolvable_def getPipelineRunId_def
          Let_def answered_def)
  show ?thesis
    using h aggregate_counts_bounded [OF h]
    by (simp add: field_of_def reports_def)
qed

subsection \<open>C10\<close>

text \<open>
  C10, as the code has it. For an integer \<open>ms\<close> with \<open>0 \<le> ms < 2^53\<close>, the integers a
  Number holds exactly, \<open>formatDuration ms\<close> is three runs of decimal digits separated by
  colons: hours of at least two digits, minutes and seconds of exactly two, minutes and
  seconds below 60, and hours * 3600 + minutes * 60 + seconds = \<open>ms div 1000\<close>. The
  second variant sends this string as the \<open>duration\<close> of a test case, and saves the same
  string in the record it appends.
\<close>

theorem formatDuration_hms:
  "(0 \<le> ms \<and> ms < 2 ^ 53 \<longrightarrow>
      (\<exists>hh mm ss.
         formatDuration ms = hh @ '':'' @ mm @ '':'' @ ss \<and>
         list_all is_digit hh \<and> list_all is_digit mm \<and> list_all is_digit ss \<and>
         2 \<le> length hh \<and> length mm = 2 \<and> length ss = 2 \<and>
         dec_value mm < 60 \<and> dec_value ss < 60 \<and>
         int (dec_value hh * 3600 + dec_value mm * 60 + dec_value ss) = ms div 1000)) \<and>
   (isJenkins s \<and> resolvable s \<longrightarrow>
      field_of (payload_of (last (requests (snd (afterEachTest_v2 e t st f s))))) ''duration'' =
        Some (S (formatDuration
                   (case testStartTime s of
                      Some t0 \<Rightarrow> if t0 \<noteq> 0 then clock e 0 - t0 else 0
                    | None \<Rightarrow> 0))) \<and>
      (\<forall>xs. succeeded_v2 (net e) \<and> fs_ok e \<and> testCasesFile s = Some (Json_array xs) \<longrightarrow>
         (\<exists>r. testCasesFile (snd (afterEachTest_v2 e t st f s)) = Some (Json_array (xs @ [r])) \<and>
              field_of r ''duration'' =
                Some (S (formatDuration
                           (case testStartTime s of
                              Some t0 \<Rightarrow> if t0 \<noteq> 0 then clock e 0 - t0 else 0
                            | None \<Rightarrow> 0))))))"
proof (intro conjI impI allI)
  assume "0 \<le> ms \<and> ms < 2 ^ 53"
  then have "0 \<le> ms" "ms < 2 ^ 53" by simp_all
  then show "\<exists>hh mm ss.
         formatDuration ms = hh @ '':'' @ mm @ '':'' @ ss \<and>
         list_all is_digit hh \<and> list_all is_digit mm \<and> list_all is_digit ss \<and>
         2 \<le> length hh \<and> length mm = 2 \<and> length ss = 2 \<and>
         dec_value mm < 60 \<and> dec_value ss < 60 \<and>
         int (dec_value hh * 3600 + dec_value mm * 60 + dec_value ss) = ms div 1000"
    by (rule formatDuration_shape)
next
  assume a: "isJenkins s \<and> resolvable s"
  then show "field_of (payload_of (last (requests (snd (afterEachTest_v2 e t st f s))))) ''duration'' =
        Some (S (formatDuration
                   (case testStartTime s of
                      Some t0 \<Rightarrow> if t0 \<noteq> 0 then clock e 0 - t0 else 0
                    | None \<Rightarrow> 0)))"
    by (simp add: afterEachTest_v2_requests field_of_def)
next
  fix xs
  assume a: "isJenkins s \<and> resolvable s"
    and b: "succeeded_v2 (net e) \<and> fs_ok e \<and> testCasesFile s = Some (Json_array xs)"
  from b obtain code d where n: "net e = Resolved code d" by (cases "net e") simp_all
  from a b have "testCasesFile (snd (afterEachTest_v2 e t st f s)) =
           Some (Json_array (xs @
             [[(''name'', S t),
               (''feature'', Json (if f = JUndefined then JStr ''General'' else f)),
               (''status'', S st),
               (''duration'',
                  S (formatDuration
                       (case testStartTime s of
                          Some t0 \<Rightarrow> if t0 \<noteq> 0 then clock e 0 - t0 else 0
                        | None \<Rightarrow> 0)))]]))"
    by (intro afterEachTest_v2_saved(2) [OF _ _ n]) simp_all
  then show "\<exists>r. testCasesFile (snd (afterEachTest_v2 e t st f s)) = Some (Json_array (xs @ [r])) \<and>
              field_of r ''duration'' =
                Some (S (formatDuration
                           (case testStartTime s of
                              Some t0 \<Rightarrow> if t0 \<noteq> 0 then clock e 0 - t0 else 0
                            | None \<Rightarrow> 0)))"
    by (simp add: field_of_def)
qed

theorem formatDuration_hms_witness:
  "0 \<le> (3723999::int) \<and> (3723999::int) < 2 ^ 53 \<and>
   (\<exists>hh mm ss.
      formatDuration 3723999 = hh @ '':'' @ mm @ '':'' @ ss \<and>
      list_all is_digit hh \<and> list_all is_digit mm \<and> list_all is_digit ss \<and>
      2 \<le> length hh \<and> length mm = 2 \<and> length ss = 2 \<and>
      dec_value mm < 60 \<and> dec_value ss < 60 \<and>
      int (dec_value hh * 3600 + dec_value mm * 60 + dec_value ss) = 3723) \<and>
   isJenkins (markTestStart 2000 started) \<and> resolvable (markTestStart 2000 started) \<and>
   succeeded_v2 (net (answered 3500 JNull)) \<and> fs_ok (answered 3500 JNull) \<and>
   testCasesFile (markTestStart 2000 started) = Some (Json_array []) \<and>
   field_of (payload_of (last (requests (snd
      (afterEachTest_v2 (answered 3500 JNull) ''TC-1'' ''passed'' JUndefined
         (markTestStart 2000 started)))))) ''duration'' = Some (S (formatDuration 1500)) \<and>
   (\<exists>r. testCasesFile (snd
            (afterEachTest_v2 (answered 3500 JNull) ''TC-1'' ''passed'' JUndefined
               (markTestStart 2000 started))) = Some (Json_array ([] @ [r])) \<and>
        field_of r ''duration'' = Some (S (formatDuration 1500)))"
proof -
  have h: "isJenkins (markTestStart 2000 started)" "resolvable (markTestStart 2000 started)"
    by (simp_all add: started_def fresh_def resolvable_def getPipelineRunId_def Let_def)
  have g: "succeeded_v2 (net (answered 3500 JNull))" "fs_ok (answered 3500 JNull)"
    "testCasesFile (markTestStart 2000 started) = Some (Json_array [])"
    "clock (answered 3500 JNull) 0 = 3500"
    by (simp_all add: answered_def fs_ok_def started_def)
  show ?thesis
    using h g
      formatDuration_hms [of 3723999 "markTestStart 2000 started" "answered 3500 JNull"
                             "''TC-1''" "''passed''" JUndefined]
    by simp
qed

text \<open>
  C10 as stated fails: the arithmetic is that of doubles. At \<open>ms = 10^28\<close> the hours are
  printed in exponent notation; at \<open>ms = 2^62\<close> the quotient \<open>ms / 1000\<close> rounds up to the
  next double, and the three components stand for one second more than
  \<open>floor(ms / 1000)\<close>.
\<close>

theorem formatDuration_beyond_exact_integers:
  "0 \<le> (10::int) ^ 28 \<and>
   formatDuration (10 ^ 28) = ''2.7777777777777773e+21:46:56'' \<and>
   \<not> list_all is_digit ''2.7777777777777773e+21'' \<and>
   0 \<le> (2::int) ^ 62 \<and>
   formatDuration (2 ^ 62) = ''1281023894007:36:28'' \<and>
   (1281023894007 * 3600 + 36 * 60 + 28 :: int) \<noteq> 2 ^ 62 div 1000"
proof -
  have "\<not> is_digit CHR ''.''" by (simp add: is_digit_def)
  then have a: "\<not> list_all is_digit ''2.7777777777777773e+21''" by simp
  have b: "0 \<le> (10::int) ^ 28" "0 \<le> (2::int) ^ 62"
    "(1281023894007 * 3600 + 36 * 60 + 28 :: int) \<noteq> 2 ^ 62 div 1000"
    by simp_all
  from a b formatDuration_10_28 formatDuration_2_62 show ?thesis by (intro conjI)
qed

end
